theory Spec2Isabelle
  imports Complex_Main
begin

section \<open>Text primitives of the host language\<close>

text \<open>
  The parser of \<^verbatim>\<open>update.py\<close> works on Python strings. A string is modelled as a
  list of 8-bit characters, read as the code points below 256. Python's \<^verbatim>\<open>int\<close> is
  unbounded and modelled by \<open>int\<close>; its \<^verbatim>\<open>float\<close> is the binary64 format, in which
  every operation returns the exact result rounded to the nearest float, ties to
  the even one. Every exception the source can raise is a value of \<open>error\<close>, and a
  fallible function returns \<open>error + 'a\<close> with \<open>Inl\<close> for the exception. The calls
  of \<^verbatim>\<open>print\<close> are left out.
\<close>

datatype error =
  AssertionError | UnparsableLeveling string | ValueError | IndexError | SyntaxError | RuntimeError
  | OverflowError

text \<open>A float is a finite binary64 number, given by its exact value, an infinity or
  the NaN; the two zeros are one value here, as no result of the parser tells them
  apart.\<close>

datatype pyfloat = Fin rat | PosInf | NegInf | NaN

datatype pynum = PyInt int | PyFloat pyfloat

datatype pyval = Num pynum | Str string

text \<open>\<^verbatim>\<open>str.isspace\<close> on one character, for code points below 256.\<close>

definition is_space :: "char \<Rightarrow> bool" where
  "is_space c = (c \<in> set [CHR 0x09, CHR 0x0A, CHR 0x0B, CHR 0x0C, CHR 0x0D,
                           CHR 0x1C, CHR 0x1D, CHR 0x1E, CHR 0x1F, CHR 0x20,
                           CHR 0x85, CHR 0xA0])"

text \<open>The class \<^verbatim>\<open>\d\<close>: the only decimal digits below code point 256.\<close>

definition is_digit :: "char \<Rightarrow> bool" where
  "is_digit c = (c \<in> set ''0123456789'')"

definition is_alpha :: "char \<Rightarrow> bool" where
  "is_alpha c = (c \<in> set ''ABCDEFGHIJKLMNOPQRSTUVWXYZabcdefghijklmnopqrstuvwxyz'')"

text \<open>\<^verbatim>\<open>s.strip()\<close>\<close>

definition strip :: "string \<Rightarrow> string" where
  "strip s = rev (dropWhile is_space (rev (dropWhile is_space s)))"

text \<open>\<^verbatim>\<open>s.startswith(p)\<close> and \<^verbatim>\<open>s.endswith(p)\<close>\<close>

definition startswith :: "string \<Rightarrow> string \<Rightarrow> bool" where
  "startswith s p = (take (length p) s = p)"

definition endswith :: "string \<Rightarrow> string \<Rightarrow> bool" where
  "endswith s p = (length p \<le> length s \<and> drop (length s - length p) s = p)"

text \<open>\<^verbatim>\<open>sub in s\<close>\<close>

fun contains :: "string \<Rightarrow> string \<Rightarrow> bool" where
  "contains sub [] = (sub = [])"
| "contains sub (c # cs) = (startswith (c # cs) sub \<or> contains sub cs)"

text \<open>\<^verbatim>\<open>s.index(sub)\<close>: the first position of \<open>sub\<close>; Python raises ValueError
  when there is none, which is \<open>None\<close> here and turned into the error by the caller.\<close>

fun index :: "string \<Rightarrow> string \<Rightarrow> nat option" where
  "index [] sub = (if sub = [] then Some 0 else None)"
| "index (c # cs) sub =
     (if startswith (c # cs) sub then Some 0 else map_option Suc (index cs sub))"

text \<open>\<^verbatim>\<open>s.replace(old, new)\<close>: every occurrence, left to right, without overlap.\<close>

fun replace :: "string \<Rightarrow> string \<Rightarrow> string \<Rightarrow> string" where
  "replace [] old new = (if old = [] then new else [])"
| "replace (c # cs) old new =
     (if old = [] then new @ c # replace cs old new
      else if startswith (c # cs) old then new @ replace (drop (length old - 1) cs) old new
      else c # replace cs old new)"

text \<open>\<^verbatim>\<open>s.count(sub)\<close>: the number of occurrences without overlap.\<close>

fun count :: "string \<Rightarrow> string \<Rightarrow> nat" where
  "count [] sub = (if sub = [] then 1 else 0)"
| "count (c # cs) sub =
     (if sub = [] then Suc (count cs sub)
      else if startswith (c # cs) sub then Suc (count (drop (length sub - 1) cs) sub)
      else count cs sub)"

text \<open>\<^verbatim>\<open>s.split(sep)\<close> for a separator that is not empty (the source splits on the
  literals \<^verbatim>\<open>' / '\<close> and \<^verbatim>\<open>' + '\<close> only). \<open>split_acc\<close> carries the piece being
  read, reversed.\<close>

fun split_acc :: "string \<Rightarrow> string \<Rightarrow> string \<Rightarrow> string list" where
  "split_acc acc [] sep = [rev acc]"
| "split_acc acc (c # cs) sep =
     (if sep \<noteq> [] \<and> startswith (c # cs) sep
      then rev acc # split_acc [] (drop (length sep - 1) cs) sep
      else split_acc (c # acc) cs sep)"

definition str_split :: "string \<Rightarrow> string \<Rightarrow> string list" where
  "str_split s sep = split_acc [] s sep"

section \<open>Regular expressions\<close>

text \<open>
  \<^verbatim>\<open>re.compile(r).findall(s)\<close> scans \<open>s\<close> from the left; at each position it tries
  to match \<open>r\<close> there, and on success it records the captured group and goes on
  behind the match. None of the four patterns of the source matches the empty string.
  A pattern is given by its matcher at the head of a string, which returns the group
  and the number of characters the match consumed.
\<close>

fun findall :: "(string \<Rightarrow> (string \<times> nat) option) \<Rightarrow> string \<Rightarrow> string list" where
  "findall m [] = []"
| "findall m (c # cs) =
     (case m (c # cs) of
        None \<Rightarrow> findall m cs
      | Some (g, n) \<Rightarrow> g # findall m (drop (n - 1) cs))"

text \<open>\<^verbatim>\<open>rnumber = r"(\d+\.?\d*)"\<close>: digits, then at most one point, then digits;
  every quantifier is greedy and none ever has to give characters back.\<close>

definition rnumber :: "string \<Rightarrow> (string \<times> nat) option" where
  "rnumber s =
     (let d1 = takeWhile is_digit s; r1 = dropWhile is_digit s;
          dot = (if startswith r1 ''.'' then ''.'' else []);
          d2 = takeWhile is_digit (drop (length dot) r1);
          g = d1 @ dot @ d2
      in if d1 = [] then None else Some (g, length g))"

text \<open>\<^verbatim>\<open>rscaling = r"(\(\+.+?\))"\<close>: an opening parenthesis, a plus sign, at least
  one character, and then the first closing parenthesis; the dot does not match a
  newline, so the match fails when a newline comes before that parenthesis.\<close>

definition rscaling :: "string \<Rightarrow> (string \<times> nat) option" where
  "rscaling s =
     (case s of
        p # q # c # rest \<Rightarrow>
          (let body = takeWhile (\<lambda>x. x \<noteq> CHR '')'' \<and> x \<noteq> CHR 0x0A) rest;
               after = dropWhile (\<lambda>x. x \<noteq> CHR '')'' \<and> x \<noteq> CHR 0x0A) rest;
               g = p # q # c # body @ '')''
           in if p = CHR ''('' \<and> q = CHR ''+'' \<and> c \<noteq> CHR 0x0A \<and> startswith after '')''
              then Some (g, length g) else None)
      | _ \<Rightarrow> None)"

text \<open>\<^verbatim>\<open>rflat = r": (.+)"\<close>: a colon, a space, and the rest of the line, which is
  the group and must not be empty.\<close>

definition rflat :: "string \<Rightarrow> (string \<times> nat) option" where
  "rflat s =
     (case s of
        p # q # rest \<Rightarrow>
          (let g = takeWhile (\<lambda>x. x \<noteq> CHR 0x0A) rest
           in if p = CHR '':'' \<and> q = CHR '' '' \<and> g \<noteq> [] then Some (g, 2 + length g) else None)
      | _ \<Rightarrow> None)"

text \<open>\<^verbatim>\<open>rattribute = r"((?:[A-Za-z'\-\.0-9]+[\s\-]*)+:)"\<close>: one or more blocks, each
  a run of label characters followed by white space and hyphens, and then a colon.
  The colon is in neither class, so a match at a position is the run of characters of
  the two classes that starts there with a label character and stops at the first
  colon; there is a match exactly when that run is followed by a colon.\<close>

definition is_label_char :: "char \<Rightarrow> bool" where
  "is_label_char c = (is_alpha c \<or> is_digit c \<or> c \<in> set [CHR 0x27, CHR ''-'', CHR ''.''])"

definition is_label_sep :: "char \<Rightarrow> bool" where
  "is_label_sep c = (is_space c \<or> c = CHR ''-'')"

definition rattribute :: "string \<Rightarrow> (string \<times> nat) option" where
  "rattribute s =
     (let body = takeWhile (\<lambda>x. is_label_char x \<or> is_label_sep x) s;
          after = dropWhile (\<lambda>x. is_label_char x \<or> is_label_sep x) s;
          g = body @ '':''
      in if s \<noteq> [] \<and> is_label_char (hd s) \<and> startswith after '':''
         then Some (g, length g) else None)"

text \<open>
  The language of the group that \<^verbatim>\<open>rattribute\<close> repeats, written as the pattern has
  it: one or more blocks, each a run of label characters that is not empty followed
  by a run of separators. It serves to justify the matcher \<open>rattribute\<close> above.
\<close>

inductive label_blocks :: "string \<Rightarrow> bool" where
  one: "cs \<noteq> [] \<Longrightarrow> list_all is_label_char cs \<Longrightarrow> list_all is_label_sep ss \<Longrightarrow>
          label_blocks (cs @ ss)"
| more: "label_blocks w \<Longrightarrow> cs \<noteq> [] \<Longrightarrow> list_all is_label_char cs \<Longrightarrow>
          list_all is_label_sep ss \<Longrightarrow> label_blocks (w @ cs @ ss)"

section \<open>Floats\<close>

text \<open>
  \<open>round_double x\<close> is the binary64 number nearest to the rational \<open>x\<close>. With
  \<open>e\<close> the exponent of \<open>x\<close>, not below that of the subnormal numbers, the floats
  around \<open>x\<close> are the multiples of \<open>2 ^ (e - 52)\<close>; \<open>x\<close> is rounded to the nearest of
  them, to the even one in a tie, and a result that reaches \<open>2 ^ 1024\<close> is
  an infinity.
\<close>

function bitlen :: "int \<Rightarrow> int" where
  "bitlen n = (if n \<le> 0 then 0 else 1 + bitlen (n div 2))"
  by pat_completeness auto
termination
proof (relation "measure nat")
  show "wf (measure nat)"
    by simp
next
  fix n :: int
  assume "\<not> n \<le> 0"
  then have "n div 2 < n"
    by simp
  with \<open>\<not> n \<le> 0\<close> show "(n div 2, n) \<in> measure nat"
    by simp
qed

declare bitlen.simps [simp del]

definition pow2 :: "int \<Rightarrow> rat" where
  "pow2 k = (if 0 \<le> k then 2 ^ nat k else 1 / 2 ^ nat (- k))"

definition floor_log2 :: "rat \<Rightarrow> int" where
  "floor_log2 x =
     (if 1 \<le> x then bitlen \<lfloor>x\<rfloor> - 1 else - bitlen (\<lceil>1 / x\<rceil> - 1))"

definition round_half_even :: "rat \<Rightarrow> int" where
  "round_half_even x =
     (let f = \<lfloor>x\<rfloor>; d = x - of_int f
      in if d < 1 / 2 then f else if 1 / 2 < d then f + 1 else if even f then f else f + 1)"

definition round_double :: "rat \<Rightarrow> pyfloat" where
  "round_double x =
     (if x = 0 then Fin 0
      else (let a = \<bar>x\<bar>;
                e = max (floor_log2 a) (- 1022);
                n = round_half_even (a / pow2 (e - 52));
                r = of_int n * pow2 (e - 52)
            in if 1023 < e \<or> (e = 1023 \<and> 2 ^ 53 \<le> n) then (if 0 < x then PosInf else NegInf)
               else Fin (if 0 < x then r else - r)))"

text \<open>The arithmetic of floats: the exact result, rounded; the infinities and the
  NaN follow the rules of the format.\<close>

fun fneg :: "pyfloat \<Rightarrow> pyfloat" where
  "fneg (Fin x) = Fin (- x)"
| "fneg PosInf = NegInf"
| "fneg NegInf = PosInf"
| "fneg NaN = NaN"

fun fadd :: "pyfloat \<Rightarrow> pyfloat \<Rightarrow> pyfloat" where
  "fadd (Fin x) (Fin y) = round_double (x + y)"
| "fadd NaN b = NaN"
| "fadd a NaN = NaN"
| "fadd PosInf NegInf = NaN"
| "fadd NegInf PosInf = NaN"
| "fadd PosInf b = PosInf"
| "fadd NegInf b = NegInf"
| "fadd a PosInf = PosInf"
| "fadd a NegInf = NegInf"

definition fsub :: "pyfloat \<Rightarrow> pyfloat \<Rightarrow> pyfloat" where
  "fsub a b = fadd a (fneg b)"

fun fmul :: "pyfloat \<Rightarrow> pyfloat \<Rightarrow> pyfloat" where
  "fmul (Fin x) (Fin y) = round_double (x * y)"
| "fmul NaN b = NaN"
| "fmul a NaN = NaN"
| "fmul (Fin x) PosInf = (if x = 0 then NaN else if 0 < x then PosInf else NegInf)"
| "fmul (Fin x) NegInf = (if x = 0 then NaN else if 0 < x then NegInf else PosInf)"
| "fmul PosInf (Fin y) = (if y = 0 then NaN else if 0 < y then PosInf else NegInf)"
| "fmul NegInf (Fin y) = (if y = 0 then NaN else if 0 < y then NegInf else PosInf)"
| "fmul PosInf PosInf = PosInf"
| "fmul PosInf NegInf = NegInf"
| "fmul NegInf PosInf = NegInf"
| "fmul NegInf NegInf = PosInf"

text \<open>The division of a float by the float \<^verbatim>\<open>17.0\<close>.\<close>

fun fdiv17 :: "pyfloat \<Rightarrow> pyfloat" where
  "fdiv17 (Fin x) = round_double (x / 17)"
| "fdiv17 a = a"

text \<open>An \<^verbatim>\<open>int\<close> that meets a float in an operation is converted to the nearest
  float; Python raises OverflowError when the \<^verbatim>\<open>int\<close> is too large for one.\<close>

definition float_of_int :: "int \<Rightarrow> error + pyfloat" where
  "float_of_int n = (case round_double (of_int n) of Fin x \<Rightarrow> Inr (Fin x) | _ \<Rightarrow> Inl OverflowError)"

fun to_float :: "pynum \<Rightarrow> error + pyfloat" where
  "to_float (PyInt n) = float_of_int n"
| "to_float (PyFloat a) = Inr a"

text \<open>\<^verbatim>\<open>maxx - minn\<close>: exact on two \<^verbatim>\<open>int\<close>s, in floats otherwise.\<close>

fun py_sub :: "pynum \<Rightarrow> pynum \<Rightarrow> error + pynum" where
  "py_sub (PyInt x) (PyInt y) = Inr (PyInt (x - y))"
| "py_sub a b =
     (case to_float a of
        Inl e \<Rightarrow> Inl e
      | Inr fa \<Rightarrow> (case to_float b of Inl e \<Rightarrow> Inl e | Inr fb \<Rightarrow> Inr (PyFloat (fsub fa fb))))"

section \<open>Numeric literals\<close>

text \<open>
  The source turns a match of \<^verbatim>\<open>rnumber\<close> into a number with \<^verbatim>\<open>eval\<close>, which is
  modelled on such matches only: digits, then possibly a point and further digits.
  A literal without a point is an integer, and Python rejects one that has a leading
  zero and is not zero, and also, in the interpreters of today, one of more than 4300
  digits; a literal with a point is the float nearest to its decimal value, whatever
  its leading zeros and its length.
\<close>

definition digit_val :: "char \<Rightarrow> int" where
  "digit_val c = of_char c - 48"

definition int_of_digits :: "string \<Rightarrow> int" where
  "int_of_digits ds = foldl (\<lambda>a c. 10 * a + digit_val c) 0 ds"

definition py_eval :: "string \<Rightarrow> error + pynum" where
  "py_eval v =
     (let ip = takeWhile is_digit v; r = dropWhile is_digit v
      in if r = []
         then (if 1 < length ip \<and> hd ip = CHR ''0'' \<and> dropWhile (\<lambda>c. c = CHR ''0'') ip \<noteq> []
               then Inl SyntaxError
               else if 4300 < length ip \<and> dropWhile (\<lambda>c. c = CHR ''0'') ip \<noteq> []
               then Inl SyntaxError
               else Inr (PyInt (int_of_digits ip)))
         else Inr (PyFloat (round_double (of_int (int_of_digits ip)
                                          + of_int (int_of_digits (tl r)) / 10 ^ length (tl r)))))"

section \<open>Attributes and their modifiers\<close>

text \<open>\<^verbatim>\<open>AttributeModifier\<close> is a dictionary with the keys sign, values and units, and
  \<^verbatim>\<open>Attribute\<close> one with the keys attribute and modifiers.\<close>

record AttributeModifier =
  sign :: string
  mvalues :: "pyval list"
  munits :: "string list"

record Attribute =
  attribute :: string
  modifiers :: "AttributeModifier list"

text \<open>A loop that appends one result per element stops at the first exception.\<close>

fun sequence :: "(error + 'a) list \<Rightarrow> error + 'a list" where
  "sequence [] = Inr []"
| "sequence (x # xs) =
     (case x of
        Inl e \<Rightarrow> Inl e
      | Inr v \<Rightarrow> (case sequence xs of Inl e \<Rightarrow> Inl e | Inr vs \<Rightarrow> Inr (v # vs)))"

text \<open>
  Both construction paths begin alike: a fragment that starts with an opening and
  ends with a closing parenthesis loses the two and is stripped (\<open>unwrap\<close>), and a
  fragment with the separator \<^verbatim>\<open>' / '\<close> is split on it into its sub-fragments,
  while one without is repeated \<open>num_levels\<close> times (\<open>levels\<close>).
\<close>

definition unwrap :: "string \<Rightarrow> string" where
  "unwrap s = (if startswith s ''('' \<and> endswith s '')'' then strip (butlast (tl s)) else s)"

definition levels :: "string \<Rightarrow> nat \<Rightarrow> string list" where
  "levels s num_levels =
     (if contains '' / '' s then str_split s '' / '' else replicate num_levels s)"

subsection \<open>The scaling path\<close>

text \<open>The body of the loop of \<^verbatim>\<open>_parse_scaling\<close> over the sub-fragments.\<close>

definition scaling_value :: "string \<Rightarrow> error + (pyval \<times> string)" where
  "scaling_value val =
     (case findall rnumber val of
        [] \<Rightarrow> if val = ''Siphoning Strike stacks'' then Inr (Str val, []) else Inl AssertionError
      | v # _ \<Rightarrow>
          if startswith val v \<or> startswith val (''[ '' @ v)
          then (case py_eval v of
                  Inl e \<Rightarrow> Inl e
                | Inr n \<Rightarrow> Inr (Num n, drop (length v) val))
          else Inl AssertionError)"

definition parse_scaling :: "string \<Rightarrow> nat \<Rightarrow> error + AttributeModifier" where
  "parse_scaling scaling num_levels =
     (case unwrap scaling of
        [] \<Rightarrow> Inl IndexError
      | modifier # rest \<Rightarrow>
          (case sequence (map scaling_value (levels (strip rest) num_levels)) of
             Inl e \<Rightarrow> Inl e
           | Inr results \<Rightarrow>
               Inr \<lparr>sign = [modifier], mvalues = map fst results,
                    munits = map snd results\<rparr>))"

subsection \<open>The flat path\<close>

text \<open>The body of the loop of \<^verbatim>\<open>_parse_flat\<close> over the sub-fragments.\<close>

definition flat_value :: "string \<Rightarrow> error + (pyval \<times> string)" where
  "flat_value val =
     (case findall rnumber val of
        [v] \<Rightarrow>
          if startswith val v
          then (case py_eval v of
                  Inl e \<Rightarrow> Inl e
                | Inr n \<Rightarrow> Inr (Num n, drop (length v) val))
          else Inl AssertionError
      | _ \<Rightarrow> Inl AssertionError)"

text \<open>The set of the units that are not empty decides: none leaves the units as they
  are, one is written at every position, more than one fails the assertion.\<close>

definition unify_units :: "string list \<Rightarrow> error + string list" where
  "unify_units us =
     (case remdups (filter (\<lambda>u. u \<noteq> []) us) of
        [] \<Rightarrow> Inr us
      | [unit] \<Rightarrow> Inr (replicate (length us) unit)
      | _ \<Rightarrow> Inl AssertionError)"

text \<open>The interpolated sub-case: \<^verbatim>\<open>delta = (maxx - minn) / 17.0\<close> and the values
  \<^verbatim>\<open>minn + i*delta\<close> for \<open>i\<close> from 0 to 17, computed in floats.\<close>

definition interpolate :: "string \<Rightarrow> string \<Rightarrow> error + AttributeModifier" where
  "interpolate unit flat =
     (case findall rnumber flat of
        [a, b] \<Rightarrow>
          (case py_eval a of
             Inl e \<Rightarrow> Inl e
           | Inr minn \<Rightarrow>
               (case py_eval b of
                  Inl e \<Rightarrow> Inl e
                | Inr maxx \<Rightarrow>
                    (case py_sub maxx minn of
                       Inl e \<Rightarrow> Inl e
                     | Inr diff \<Rightarrow>
                         (case to_float diff of
                            Inl e \<Rightarrow> Inl e
                          | Inr fdiff \<Rightarrow>
                              (case to_float minn of
                                 Inl e \<Rightarrow> Inl e
                               | Inr fminn \<Rightarrow>
                                   Inr \<lparr>sign = ''+'',
                                        mvalues =
                                          map (\<lambda>i. Num (PyFloat
                                                 (fadd fminn (fmul (Fin (of_nat i)) (fdiv17 fdiff)))))
                                            [0..<18],
                                        munits = replicate 18 unit\<rparr>)))))
      | _ \<Rightarrow> Inl AssertionError)"

definition parse_flat :: "string \<Rightarrow> nat \<Rightarrow> error + AttributeModifier" where
  "parse_flat flat num_levels =
     (if contains ''(based on level)'' flat \<or> contains ''(based on casts)'' flat
      then (if contains ''(based on level)'' flat
            then interpolate ''by level'' (strip (replace flat ''(based on level)'' []))
            else if contains ''(based on casts)'' flat
            then interpolate ''by cast'' (strip (replace flat ''(based on casts)'' []))
            else Inl RuntimeError)
      else (case sequence (map flat_value (levels (unwrap flat) num_levels)) of
              Inl e \<Rightarrow> Inl e
            | Inr results \<Rightarrow>
                (case unify_units (map snd results) of
                   Inl e \<Rightarrow> Inl e
                 | Inr us \<Rightarrow>
                     Inr \<lparr>sign = ''+'', mvalues = map fst results, munits = us\<rparr>)))"

subsection \<open>One label and its span\<close>

text \<open>\<^verbatim>\<open>Attribute.from_string\<close>: the scaling fragments are cut out of the span one
  after the other, each followed by a strip, and parsed; then the flat fragments
  are read from what is left.\<close>

definition remove_scalings :: "string \<Rightarrow> string list \<Rightarrow> string" where
  "remove_scalings split scalings = foldl (\<lambda>s scaling. strip (replace s scaling [])) split scalings"

definition flat_fragments :: "string \<Rightarrow> string list" where
  "flat_fragments split =
     (let flat = concat (map (\<lambda>x. str_split (strip x) '' + '') (findall rflat split));
          numbers = findall rnumber split
      in if flat \<noteq> [] then flat
         else if count split '' / '' = 4 \<and> length numbers = 5 then [split]
         else if count split '' / '' = 2 \<and> length numbers = 3 then [split]
         else if length numbers = 1 \<and> hd numbers = split then [split]
         else [])"

definition from_string :: "string \<Rightarrow> string \<Rightarrow> error + Attribute" where
  "from_string name split0 =
     (let scalings = findall rscaling split0;
          split = remove_scalings split0 scalings
      in case sequence (map (\<lambda>s. parse_scaling (strip s) 5) scalings) of
           Inl e \<Rightarrow> Inl e
         | Inr rs \<Rightarrow>
             (case sequence (map (\<lambda>f. parse_flat f 5) (flat_fragments split)) of
                Inl e \<Rightarrow> Inl e
              | Inr fs \<Rightarrow> Inr \<lparr>attribute = name, modifiers = rs @ fs\<rparr>))"

section \<open>Segmenting a leveling block\<close>

text \<open>
  The loop of \<^verbatim>\<open>_match_and_split\<close> over \<^verbatim>\<open>matches[1:]\<close>: \<open>prev\<close> is the label
  before \<open>m\<close>. The next label is searched behind the first \<open>length prev\<close>
  characters of what is left of the string; the text before the place found is
  stripped and becomes a span, and the string goes on from that place.
\<close>

fun split_loop :: "string \<Rightarrow> string \<Rightarrow> string list \<Rightarrow> error + string list" where
  "split_loop string prev [] = Inr [string]"
| "split_loop string prev (m # ms) =
     (case index (drop (length prev) string) m of
        None \<Rightarrow> Inl ValueError
      | Some start \<Rightarrow>
          (case split_loop (drop (length prev + start) string) m ms of
             Inl e \<Rightarrow> Inl e
           | Inr splits \<Rightarrow> Inr (strip (take (length prev + start) string) # splits)))"

definition heimer_splits :: "string list" where
  "heimer_splits =
     [''Initial Rocket Magic Damage: 135 / 180 / 225 (+ 45% AP) 2-5'',
      ''Rocket Magic Damage: 32 / 45 / 58 (+ 12% AP) 6-20'',
      ''0 Rocket Magic Damage: 16 / 22.5 / 29 (+ 6% AP)'',
      ''Total Magic Damage: 503 / 697.5 / 892 (+ 183% AP)'',
      '') Total Minion Magic Damage: 2700 / 3600 / 4500 (+ 900% AP)'']"

definition heimer_fixed :: "string list" where
  "heimer_fixed =
     [''Initial Rocket Magic Damage: 135 / 180 / 225 (+ 45% AP)'',
      ''2-5 Rocket Magic Damage: 32 / 45 / 58 (+ 12% AP)'',
      ''6-20 Rocket Magic Damage: 16 / 22.5 / 29 (+ 6% AP)'',
      ''Total Magic Damage: 503 / 697.5 / 892 (+ 183% AP)'',
      ''Total Minion Magic Damage: 2700 / 3600 / 4500 (+ 900% AP)'']"

definition unparsable :: "string list" where
  "unparsable =
     [''Pounce scales with  Aspect of the Cougar's rank'',
      ''Cougar form's abilities rank up when  Aspect of the Cougar does'']"

definition match_and_split ::
  "string \<Rightarrow> (string \<Rightarrow> (string \<times> nat) option) \<Rightarrow> error + (string list \<times> string list)" where
  "match_and_split string regex =
     (if string \<in> set unparsable then Inl (UnparsableLeveling string)
      else (let matches = map butlast (findall regex string)
            in case (case matches of
                       [] \<Rightarrow> Inr [string]
                     | m # ms \<Rightarrow> split_loop string m ms) of
                 Inl e \<Rightarrow> Inl e
               | Inr splits \<Rightarrow>
                   Inr (matches, if splits = heimer_splits then heimer_fixed else splits)))"

section \<open>The leveling pipeline\<close>

definition leveling_removals :: "string list" where
  "leveling_removals = [''(increased by 3% per 1% of health lost in the past 4 seconds)'']"

definition remove_phrases :: "string \<Rightarrow> string" where
  "remove_phrases leveling =
     foldl (\<lambda>l removal. if contains removal l then strip (replace l removal []) else l)
       leveling leveling_removals"

definition split_leveling :: "string \<Rightarrow> error + Attribute list" where
  "split_leveling leveling =
     (case match_and_split (remove_phrases leveling) rattribute of
        Inl e \<Rightarrow> Inl e
      | Inr (matches, splits) \<Rightarrow>
          sequence (map (\<lambda>(attribute_name, split). from_string attribute_name split)
                      (zip matches splits)))"

text \<open>
  \<^verbatim>\<open>_parse_leveling\<close> after \<^verbatim>\<open>_preparse_format\<close>, whose markup stripping belongs to an
  external library: \<open>parsed\<close> is the text it returns. For the skill R the loop
  rewrites, in every modifier, a list of five values to its entries 0, 2 and 4, and
  likewise a list of five units.
\<close>

definition sample :: "'a list \<Rightarrow> 'a list" where
  "sample xs = (if length xs = 5 then [xs ! 0, xs ! 2, xs ! 4] else xs)"

definition reduce_modifier :: "AttributeModifier \<Rightarrow> AttributeModifier" where
  "reduce_modifier modifier =
     modifier\<lparr>mvalues := sample (mvalues modifier), munits := sample (munits modifier)\<rparr>"

definition reduce_ranks :: "Attribute list \<Rightarrow> Attribute list" where
  "reduce_ranks results =
     map (\<lambda>a. a\<lparr>modifiers := map reduce_modifier (modifiers a)\<rparr>) results"

definition parse_leveling :: "string \<Rightarrow> string \<Rightarrow> error + Attribute list" where
  "parse_leveling parsed skill =
     (case split_leveling parsed of
        Inl e \<Rightarrow> Inl e
      | Inr results \<Rightarrow> Inr (if skill = ''R'' then reduce_ranks results else results))"

section \<open>Spans from label to label\<close>

text \<open>
  Where the labels sit in a text: \<open>scan\<close> goes through the text as \<open>findall\<close> does
  and returns, for every match, the text that lies before it (behind the match
  before) together with the match, and at last the text behind the last match.
\<close>

fun scan ::
  "(string \<Rightarrow> (string \<times> nat) option) \<Rightarrow> string \<Rightarrow> string \<Rightarrow> (string \<times> string) list \<times> string"
where
  "scan m acc [] = ([], rev acc)"
| "scan m acc (c # cs) =
     (case m (c # cs) of
        None \<Rightarrow> scan m (c # acc) cs
      | Some (g, n) \<Rightarrow>
          (case scan m [] (drop (n - 1) cs) of (segs, tail) \<Rightarrow> ((rev acc, g) # segs, tail)))"

text \<open>
  The spans as the specification words them: the text \<open>cur\<close>, which starts with a
  label and its colon, runs up to the start of the next label, and the last one
  runs to the end of the string. The first span starts at the start of the string.
\<close>

fun join :: "string \<Rightarrow> (string \<times> string) list \<Rightarrow> string \<Rightarrow> string list" where
  "join cur [] tail = [cur @ tail]"
| "join cur ((a, g) # rest) tail = (cur @ a) # join g rest tail"

definition label_spans :: "string \<Rightarrow> string list" where
  "label_spans string =
     (case scan rattribute [] string of
        ([], tail) \<Rightarrow> [string]
      | ((a, g) # rest, tail) \<Rightarrow> join (a @ g) rest tail)"

text \<open>
  The source looks for the next label with \<^verbatim>\<open>str.index\<close>, behind the first
  \<open>length prev\<close> characters of the text it has left, and so finds the first place
  where the text of the label occurs. \<open>no_slip\<close> holds when, for every label, that
  place is the label itself.
\<close>

fun no_slip :: "string \<Rightarrow> string \<Rightarrow> (string \<times> string) list \<Rightarrow> string \<Rightarrow> bool" where
  "no_slip cur prev [] tail = True"
| "no_slip cur prev ((a, g) # rest) tail =
     (index (drop (length prev) (cur @ a @ g @ concat (map (\<lambda>(a, g). a @ g) rest) @ tail))
        (butlast g)
        = Some (length cur + length a - length prev)
      \<and> no_slip g (butlast g) rest tail)"

section \<open>The label pattern as a language\<close>

lemma label_blocks_sep: "label_blocks w \<Longrightarrow> is_label_sep c \<Longrightarrow> label_blocks (w @ [c])"
proof (induction rule: label_blocks.cases)
  case (one cs ss)
  from label_blocks.one [OF one(2,3), of "ss @ [c]"] one(1,4) \<open>is_label_sep c\<close>
  show ?case by simp
next
  case (more w' cs ss)
  from label_blocks.more [OF more(2,3,4), of "ss @ [c]"] more(1,5) \<open>is_label_sep c\<close>
  show ?case by simp
qed

lemma label_blocks_char: "label_blocks w \<Longrightarrow> is_label_char c \<Longrightarrow> label_blocks (w @ [c])"
  using label_blocks.more [of w "[c]" "[]"] by simp

lemma label_blocks_iff:
  "label_blocks w \<longleftrightarrow>
     w \<noteq> [] \<and> is_label_char (hd w) \<and> list_all (\<lambda>x. is_label_char x \<or> is_label_sep x) w"
proof
  assume "label_blocks w"
  then show "w \<noteq> [] \<and> is_label_char (hd w)
             \<and> list_all (\<lambda>x. is_label_char x \<or> is_label_sep x) w"
  proof (induction rule: label_blocks.induct)
    case (one cs ss)
    then show ?case
      by (auto simp: list_all_iff hd_append)
  next
    case (more w cs ss)
    then show ?case
      by (auto simp: list_all_iff hd_append)
  qed
next
  show "w \<noteq> [] \<and> is_label_char (hd w)
          \<and> list_all (\<lambda>x. is_label_char x \<or> is_label_sep x) w \<Longrightarrow> label_blocks w"
  proof (induction w rule: rev_induct)
    case Nil
    then show ?case by simp
  next
    case (snoc c w)
    show ?case
    proof (cases w)
      case Nil
      with snoc.prems label_blocks.one [of "[c]" "[]"] show ?thesis by simp
    next
      case (Cons a w')
      with snoc have "label_blocks w"
        by simp
      moreover from snoc.prems have "is_label_char c \<or> is_label_sep c"
        by simp
      ultimately show ?thesis
        using label_blocks_char label_blocks_sep by blast
    qed
  qed
qed

text \<open>
  The matcher \<open>rattribute\<close> succeeds at the head of a string exactly when the string
  starts with a text of that language followed by a colon, and then it returns that
  text with the colon: as the colon belongs to neither class of characters, there is
  one such text at most.
\<close>

lemma rattribute_language:
  "rattribute s = Some (g, n) \<longleftrightarrow>
     (\<exists>w rest. label_blocks w \<and> s = w @ CHR '':'' # rest \<and> g = w @ '':'' \<and> n = length g)"
proof
  let ?P = "\<lambda>x. is_label_char x \<or> is_label_sep x"
  assume a: "rattribute s = Some (g, n)"
  then have s: "s \<noteq> []" "is_label_char (hd s)" and g: "g = takeWhile ?P s @ '':''" "n = length g"
    and st: "startswith (dropWhile ?P s) '':''"
    by (auto simp: rattribute_def Let_def split: if_splits)
  from st obtain rest where rest: "dropWhile ?P s = CHR '':'' # rest"
    by (cases "dropWhile ?P s") (auto simp: startswith_def)
  have "s = takeWhile ?P s @ dropWhile ?P s"
    by simp
  with rest have t: "s = takeWhile ?P s @ CHR '':'' # rest"
    by simp
  from s have "takeWhile ?P s \<noteq> []" "hd (takeWhile ?P s) = hd s"
    by (cases s; simp)+
  moreover have "list_all ?P (takeWhile ?P s)"
    by (auto simp: list_all_iff dest: set_takeWhileD)
  ultimately have "label_blocks (takeWhile ?P s)"
    using s(2) by (simp add: label_blocks_iff)
  with t g show "\<exists>w rest. label_blocks w \<and> s = w @ CHR '':'' # rest \<and> g = w @ '':'' \<and> n = length g"
    by blast
next
  let ?P = "\<lambda>x. is_label_char x \<or> is_label_sep x"
  assume "\<exists>w rest. label_blocks w \<and> s = w @ CHR '':'' # rest \<and> g = w @ '':'' \<and> n = length g"
  then obtain w rest where w: "label_blocks w" "s = w @ CHR '':'' # rest" "g = w @ '':''"
    "n = length g"
    by blast
  from w(1) have lw: "w \<noteq> []" "is_label_char (hd w)" "\<forall>x\<in>set w. ?P x"
    by (simp_all add: label_blocks_iff list_all_iff)
  have colon: "\<not> ?P CHR '':''"
    by (simp add: is_label_char_def is_label_sep_def is_alpha_def is_digit_def is_space_def)
  have tw: "takeWhile ?P s = w"
    using w(2) lw(3) colon by (simp add: takeWhile_append2)
  have dw: "dropWhile ?P s = CHR '':'' # rest"
    using w(2) lw(3) colon by (simp add: dropWhile_append2)
  have "s \<noteq> []" "hd s = hd w"
    using w(2) lw(1) by simp_all
  with tw dw lw(2) w(3,4) show "rattribute s = Some (g, n)"
    by (simp add: rattribute_def Let_def startswith_def)
qed

section \<open>The sign of a flat modifier\<close>

lemma interpolate_sign: "interpolate u f = Inr m \<Longrightarrow> sign m = ''+''"
  by (auto simp: interpolate_def Let_def split: list.splits sum.splits)

text \<open>
  Claim C10. Every modifier that the flat path builds, in the literal-list sub-case
  as in the interpolated one, has the sign \<open>+\<close>, whatever the text of the fragment:
  the flat path never builds a modifier with the sign \<open>-\<close>.
\<close>

theorem flat_sign_is_plus:
  "parse_flat flat num_levels = Inr m \<Longrightarrow> sign m = ''+'' \<and> sign m \<noteq> ''-''"
  by (auto simp: parse_flat_def dest: interpolate_sign split: if_splits sum.splits)

theorem flat_sign_is_plus_witness:
  "parse_flat ''-10 / -20 / -30'' 5 = Inl AssertionError
   \<and> parse_flat ''10 - / 20 - / 30 -'' 5
       = Inr \<lparr>sign = ''+'', mvalues = [Num (PyInt 10), Num (PyInt 20), Num (PyInt 30)],
              munits = ['' -'', '' -'', '' -'']\<rparr>
   \<and> sign \<lparr>sign = ''+'', mvalues = [Num (PyInt 10), Num (PyInt 20), Num (PyInt 30)],
              munits = ['' -'', '' -'', '' -'']\<rparr> \<noteq> ''-''"
proof -
  have a: "parse_flat ''-10 / -20 / -30'' 5 = Inl AssertionError"
    by code_simp
  have b: "parse_flat ''10 - / 20 - / 30 -'' 5
       = Inr \<lparr>sign = ''+'', mvalues = [Num (PyInt 10), Num (PyInt 20), Num (PyInt 30)],
              munits = ['' -'', '' -'', '' -'']\<rparr>"
    by code_simp
  from flat_sign_is_plus [OF b] a b show ?thesis by blast
qed

section \<open>The reduction of ranks for the ultimate\<close>

lemma sample_idem: "sample (sample xs) = sample xs"
  by (simp add: sample_def)

lemma reduce_modifier_idem: "reduce_modifier (reduce_modifier m) = reduce_modifier m"
  by (simp add: reduce_modifier_def sample_idem)

lemma reduce_ranks_idem: "reduce_ranks (reduce_ranks rs) = reduce_ranks rs"
  by (simp add: reduce_ranks_def reduce_modifier_idem comp_def)

text \<open>
  Claim C2. When \<open>parse_leveling\<close> is called with the skill R and the segments parse
  to the attributes \<open>pre\<close>, it returns as many attributes with the same names and as
  many modifiers with the same signs; in every modifier a list of exactly five
  values is replaced by its entries 0, 2 and 4 and a list of any other length is
  kept, and likewise, on their own length, the units. Reducing the result once more
  changes nothing.
\<close>

theorem ultimate_reduction:
  assumes "split_leveling parsed = Inr pre"
  shows "\<exists>post. parse_leveling parsed ''R'' = Inr post
           \<and> length post = length pre
           \<and> (\<forall>i<length pre.
                 attribute (post ! i) = attribute (pre ! i)
               \<and> length (modifiers (post ! i)) = length (modifiers (pre ! i))
               \<and> (\<forall>j<length (modifiers (pre ! i)).
                     sign (modifiers (post ! i) ! j) = sign (modifiers (pre ! i) ! j)
                   \<and> mvalues (modifiers (post ! i) ! j)
                       = (let v = mvalues (modifiers (pre ! i) ! j)
                          in if length v = 5 then [v ! 0, v ! 2, v ! 4] else v)
                   \<and> munits (modifiers (post ! i) ! j)
                       = (let u = munits (modifiers (pre ! i) ! j)
                          in if length u = 5 then [u ! 0, u ! 2, u ! 4] else u)))
           \<and> reduce_ranks post = post"
proof -
  have "parse_leveling parsed ''R'' = Inr (reduce_ranks pre)"
    using assms by (simp add: parse_leveling_def)
  moreover have "length (reduce_ranks pre) = length pre"
    by (simp add: reduce_ranks_def)
  moreover have "reduce_ranks (reduce_ranks pre) = reduce_ranks pre"
    by (rule reduce_ranks_idem)
  moreover have "\<forall>i<length pre.
                 attribute (reduce_ranks pre ! i) = attribute (pre ! i)
               \<and> length (modifiers (reduce_ranks pre ! i)) = length (modifiers (pre ! i))
               \<and> (\<forall>j<length (modifiers (pre ! i)).
                     sign (modifiers (reduce_ranks pre ! i) ! j) = sign (modifiers (pre ! i) ! j)
                   \<and> mvalues (modifiers (reduce_ranks pre ! i) ! j)
                       = (let v = mvalues (modifiers (pre ! i) ! j)
                          in if length v = 5 then [v ! 0, v ! 2, v ! 4] else v)
                   \<and> munits (modifiers (reduce_ranks pre ! i) ! j)
                       = (let u = munits (modifiers (pre ! i) ! j)
                          in if length u = 5 then [u ! 0, u ! 2, u ! 4] else u))"
    by (simp add: reduce_ranks_def reduce_modifier_def sample_def Let_def)
  ultimately show ?thesis by blast
qed

theorem ultimate_reduction_witness:
  "split_leveling ''Damage: 80 / 130 / 180 / 200 / 250 (+ 60% AP / 70% AP / 80% AP) Slow: 20%''
     = Inr [\<lparr>attribute = ''Damage'',
              modifiers =
                [\<lparr>sign = ''+'', mvalues = [Num (PyInt 60), Num (PyInt 70), Num (PyInt 80)],
                   munits = [''% AP'', ''% AP'', ''% AP'']\<rparr>,
                 \<lparr>sign = ''+'',
                   mvalues = [Num (PyInt 80), Num (PyInt 130), Num (PyInt 180),
                              Num (PyInt 200), Num (PyInt 250)],
                   munits = [[], [], [], [], []]\<rparr>]\<rparr>,
            \<lparr>attribute = ''Slow'',
              modifiers =
                [\<lparr>sign = ''+'',
                   mvalues = [Num (PyInt 20), Num (PyInt 20), Num (PyInt 20),
                              Num (PyInt 20), Num (PyInt 20)],
                   munits = [''%'', ''%'', ''%'', ''%'', ''%'']\<rparr>]\<rparr>]
   \<and> (\<exists>post.
         parse_leveling
           ''Damage: 80 / 130 / 180 / 200 / 250 (+ 60% AP / 70% AP / 80% AP) Slow: 20%'' ''R''
           = Inr post
       \<and> post = [\<lparr>attribute = ''Damage'',
                  modifiers =
                    [\<lparr>sign = ''+'', mvalues = [Num (PyInt 60), Num (PyInt 70), Num (PyInt 80)],
                       munits = [''% AP'', ''% AP'', ''% AP'']\<rparr>,
                     \<lparr>sign = ''+'',
                       mvalues = [Num (PyInt 80), Num (PyInt 180), Num (PyInt 250)],
                       munits = [[], [], []]\<rparr>]\<rparr>,
                \<lparr>attribute = ''Slow'',
                  modifiers =
                    [\<lparr>sign = ''+'', mvalues = [Num (PyInt 20), Num (PyInt 20), Num (PyInt 20)],
                       munits = [''%'', ''%'', ''%'']\<rparr>]\<rparr>]
       \<and> reduce_ranks post = post)"
proof -
  let ?text = "''Damage: 80 / 130 / 180 / 200 / 250 (+ 60% AP / 70% AP / 80% AP) Slow: 20%''"
  let ?pre = "[\<lparr>attribute = ''Damage'',
              modifiers =
                [\<lparr>sign = ''+'', mvalues = [Num (PyInt 60), Num (PyInt 70), Num (PyInt 80)],
                   munits = [''% AP'', ''% AP'', ''% AP'']\<rparr>,
                 \<lparr>sign = ''+'',
                   mvalues = [Num (PyInt 80), Num (PyInt 130), Num (PyInt 180),
                              Num (PyInt 200), Num (PyInt 250)],
                   munits = [[], [], [], [], []]\<rparr>]\<rparr>,
            \<lparr>attribute = ''Slow'',
              modifiers =
                [\<lparr>sign = ''+'',
                   mvalues = [Num (PyInt 20), Num (PyInt 20), Num (PyInt 20),
                              Num (PyInt 20), Num (PyInt 20)],
                   munits = [''%'', ''%'', ''%'', ''%'', ''%'']\<rparr>]\<rparr>]"
  have pre: "split_leveling ?text = Inr ?pre"
    by code_simp
  have post: "parse_leveling ?text ''R''
      = Inr [\<lparr>attribute = ''Damage'',
                  modifiers =
                    [\<lparr>sign = ''+'', mvalues = [Num (PyInt 60), Num (PyInt 70), Num (PyInt 80)],
                       munits = [''% AP'', ''% AP'', ''% AP'']\<rparr>,
                     \<lparr>sign = ''+'',
                       mvalues = [Num (PyInt 80), Num (PyInt 180), Num (PyInt 250)],
                       munits = [[], [], []]\<rparr>]\<rparr>,
                \<lparr>attribute = ''Slow'',
                  modifiers =
                    [\<lparr>sign = ''+'', mvalues = [Num (PyInt 20), Num (PyInt 20), Num (PyInt 20)],
                       munits = [''%'', ''%'', ''%'']\<rparr>]\<rparr>]"
    by code_simp
  from ultimate_reduction [OF pre] obtain p where
    p: "parse_leveling ?text ''R'' = Inr p" "reduce_ranks p = p"
    by blast
  from p(1) post p(2) pre show ?thesis
    by simp
qed

section \<open>A leveling block without a label\<close>

text \<open>
  Claim C8. Let \<open>s\<close> be the text that reaches the segmenter, that is the leveling
  text after the removal of the extraneous phrase. When \<open>s\<close> holds no match of the
  label pattern and is neither of the two unparsable strings, the segmenter returns
  no label and one span, \<open>s\<close> itself; the pipeline then returns the empty list of
  attributes and raises nothing, for every skill.
\<close>

theorem unlabelled_text_discarded:
  assumes "s = remove_phrases leveling"
    and "findall rattribute s = []"
    and "s \<notin> set unparsable"
  shows "match_and_split s rattribute = Inr ([], [s])
         \<and> split_leveling leveling = Inr []
         \<and> parse_leveling leveling skill = Inr []"
proof -
  have "[s] \<noteq> heimer_splits"
    by (simp add: heimer_splits_def)
  then have seg: "match_and_split s rattribute = Inr ([], [s])"
    using assms(2,3) by (simp add: match_and_split_def)
  then have spl: "split_leveling leveling = Inr []"
    using assms(1) by (simp add: split_leveling_def)
  then have "parse_leveling leveling skill = Inr []"
    by (simp add: parse_leveling_def reduce_ranks_def)
  with seg spl show ?thesis by simp
qed

theorem unlabelled_text_discarded_witness:
  "''deals 50 damage'' = remove_phrases ''deals 50 damage''
   \<and> findall rattribute ''deals 50 damage'' = []
   \<and> ''deals 50 damage'' \<notin> set unparsable
   \<and> match_and_split ''deals 50 damage'' rattribute = Inr ([], [''deals 50 damage''])
   \<and> split_leveling ''deals 50 damage'' = Inr []
   \<and> parse_leveling ''deals 50 damage'' ''Q'' = Inr []"
proof -
  have a: "''deals 50 damage'' = remove_phrases ''deals 50 damage''"
    by code_simp
  have b: "findall rattribute ''deals 50 damage'' = []"
    by code_simp
  have c: "''deals 50 damage'' \<notin> set unparsable"
    by code_simp
  from unlabelled_text_discarded [OF a b c, of "''Q''"] a b c show ?thesis
    by blast
qed

section \<open>Numeric literals in a text\<close>

lemma rnumber_Some:
  assumes "rnumber s = Some (g, n)"
  shows "g \<noteq> [] \<and> is_digit (hd g) \<and> n = length g \<and> s \<noteq> [] \<and> is_digit (hd s)"
proof -
  from assms have d: "takeWhile is_digit s \<noteq> []"
    by (auto simp: rnumber_def Let_def split: if_splits)
  then have s: "s \<noteq> [] \<and> is_digit (hd s)"
    by (cases s) (auto split: if_splits)
  from d have "hd (takeWhile is_digit s) = hd s"
    by (cases s) (auto split: if_splits)
  with assms d s show ?thesis
    by (auto simp: rnumber_def Let_def split: if_splits)
qed

lemma rnumber_digit: "is_digit c \<Longrightarrow> \<exists>g. rnumber (c # cs) = Some (g, length g)"
  by (simp add: rnumber_def Let_def)

lemma findall_rnumber_head:
  "findall rnumber s = v # others \<Longrightarrow> v \<noteq> [] \<and> is_digit (hd v)"
proof (induction s)
  case Nil
  then show ?case by simp
next
  case (Cons c cs)
  show ?case
  proof (cases "rnumber (c # cs)")
    case None
    with Cons show ?thesis by simp
  next
    case (Some p)
    obtain g n where p: "p = (g, n)" by (cases p)
    with Some Cons.prems have "v = g" by simp
    with rnumber_Some [of "c # cs" g n] Some p show ?thesis by simp
  qed
qed

lemma findall_rnumber_prefix:
  assumes "findall rnumber s = v # others" and "startswith s v"
  shows "others = findall rnumber (drop (length v) s)"
proof -
  from findall_rnumber_head [OF assms(1)] have v: "v \<noteq> []" "is_digit (hd v)"
    by simp_all
  from assms(2) v(1) obtain c cs where s: "s = c # cs" "hd v = c"
    by (cases s; cases v) (auto simp: startswith_def)
  with v(2) obtain g where g: "rnumber (c # cs) = Some (g, length g)"
    using rnumber_digit by blast
  with assms(1) s have "v = g" "others = findall rnumber (drop (length g - 1) cs)"
    by auto
  moreover have "drop (length g - 1) cs = drop (length g) (c # cs)"
    using rnumber_Some [OF g] by (cases g) simp_all
  ultimately show ?thesis using s by simp
qed

lemma findall_rnumber_Nil: "(\<forall>c\<in>set s. \<not> is_digit c) \<Longrightarrow> findall rnumber s = []"
proof (induction s)
  case Nil
  then show ?case by simp
next
  case (Cons c cs)
  have "rnumber (c # cs) = None"
  proof (cases "rnumber (c # cs)")
    case (Some p)
    then show ?thesis using rnumber_Some [of "c # cs" "fst p" "snd p"] Cons.prems by simp
  qed simp
  with Cons show ?case by simp
qed

lemma py_eval_error: "py_eval v = Inl e \<Longrightarrow> e = SyntaxError"
  by (auto simp: py_eval_def Let_def split: if_splits)

section \<open>The interpolated sub-case of the flat path\<close>

lemma interpolate_not_two:
  "length (findall rnumber rest) \<noteq> 2 \<Longrightarrow> interpolate unit rest = Inl AssertionError"
  by (auto simp: interpolate_def split: list.splits)

lemma interpolate_two:
  assumes "findall rnumber rest = [a, b]" and "py_eval a = Inr minn" and "py_eval b = Inr maxx"
    and "py_sub maxx minn = Inr diff" and "to_float diff = Inr fdiff"
    and "to_float minn = Inr fminn"
  shows "interpolate unit rest =
           Inr \<lparr>sign = ''+'',
                mvalues = map (\<lambda>i. Num (PyFloat (fadd fminn (fmul (Fin (of_nat i)) (fdiv17 fdiff)))))
                            [0..<18],
                munits = replicate 18 unit\<rparr>"
  using assms by (simp add: interpolate_def)

lemma interpolate_syntax_error:
  assumes "findall rnumber rest = [a, b]"
    and "py_eval a = Inl SyntaxError \<or> py_eval b = Inl SyntaxError"
  shows "interpolate unit rest = Inl SyntaxError"
  using assms py_eval_error [of a] by (auto simp: interpolate_def split: sum.splits)

lemma float_of_int_error: "float_of_int k = Inl e \<Longrightarrow> e = OverflowError"
  by (auto simp: float_of_int_def split: pyfloat.splits)

lemma to_float_error: "to_float x = Inl e \<Longrightarrow> e = OverflowError"
  using float_of_int_error by (cases x) auto

lemma py_sub_error: "py_sub x y = Inl e \<Longrightarrow> e = OverflowError"
  using float_of_int_error by (cases x; cases y) (auto split: sum.splits)

lemma interpolate_overflow:
  assumes "findall rnumber rest = [a, b]" and "py_eval a = Inr minn" and "py_eval b = Inr maxx"
    and "py_sub maxx minn = Inl OverflowError
         \<or> (\<exists>diff. py_sub maxx minn = Inr diff \<and> to_float diff = Inl OverflowError)
         \<or> to_float minn = Inl OverflowError"
  shows "interpolate unit rest = Inl OverflowError"
proof (cases "py_sub maxx minn")
  case (Inl e)
  with py_sub_error [OF Inl] assms(1,2,3) show ?thesis
    by (simp add: interpolate_def)
next
  case (Inr diff)
  show ?thesis
  proof (cases "to_float diff")
    case (Inl e)
    with to_float_error [OF Inl] Inr assms(1,2,3) show ?thesis
      by (simp add: interpolate_def)
  next
    case diff_ok: (Inr fdiff)
    with Inr assms(4) have "to_float minn = Inl OverflowError"
      by auto
    with Inr diff_ok assms(1,2,3) show ?thesis
      by (simp add: interpolate_def)
  qed
qed

lemma parse_flat_marker:
  assumes "contains ''(based on level)'' flat \<or> contains ''(based on casts)'' flat"
  shows "parse_flat flat n =
           interpolate (if contains ''(based on level)'' flat then ''by level'' else ''by cast'')
             (if contains ''(based on level)'' flat
              then strip (replace flat ''(based on level)'' [])
              else strip (replace flat ''(based on casts)'' []))"
  using assms by (auto simp: parse_flat_def)

lemma round_double_small:
  "map (\<lambda>i. round_double (of_nat i)) [0..<18] = map (\<lambda>i. Fin (of_nat i)) [0..<18]"
  by code_simp

lemma round_double_nat: "i < 18 \<Longrightarrow> round_double (of_nat i) = Fin (of_nat i)"
proof -
  assume i: "i < 18"
  have "map (\<lambda>i. round_double (of_nat i)) [0..<18] ! i = map (\<lambda>i. Fin (of_nat i)) [0..<18] ! i"
    by (simp only: round_double_small)
  with i show ?thesis
    by (simp del: upt_Suc)
qed

lemma round_double_one: "round_double 1 = Fin 1"
  using round_double_nat [of 1] by simp

lemma float_of_int_0: "float_of_int 0 = Inr (Fin 0)"
  by (simp add: float_of_int_def round_double_def)

lemma round_double_17: "round_double 17 = Fin 17"
  using round_double_nat [of 17] by simp

lemma float_of_int_17: "float_of_int 17 = Inr (Fin 17)"
  by (simp add: float_of_int_def round_double_17)

lemma unit_steps:
  assumes "i < 18"
  shows "fadd (Fin 0) (fmul (Fin (of_nat i)) (fdiv17 (Fin 17))) = Fin (of_nat i)"
  using assms by (simp add: round_double_one round_double_nat)

text \<open>
  Claim C3, as the code has it. Let a flat fragment contain the marker
  \<^verbatim>\<open>(based on level)\<close> or the marker \<^verbatim>\<open>(based on casts)\<close>; \<open>unit\<close> is \<^verbatim>\<open>by level\<close> for
  the former and \<^verbatim>\<open>by cast\<close> for the latter, and \<open>rest\<close> is the fragment without the
  marker, stripped. Parsing fails with the assertion error unless \<open>rest\<close> holds
  exactly two numeric literals. With two literals it raises SyntaxError when Python
  does not evaluate one of them, and OverflowError when an integer that has to become
  a float, the minimum or the maximum or their difference, is too large for one.
  Otherwise the literals are the minimum and the maximum, and the
  result is one modifier with the sign \<open>+\<close>, 18 times the unit, and 18 values: with
  \<open>delta\<close> the float quotient of \<open>maxx - minn\<close> by 17, the value at \<open>i\<close> is the float
  sum of \<open>minn\<close> and the float product of \<open>i\<close> and \<open>delta\<close>, every operation rounded
  to the nearest float. For the minimum 0 and the maximum 17 the values are exactly
  0, 1, ..., 17.
\<close>

theorem interpolated_fragment:
  assumes "contains ''(based on level)'' flat \<or> contains ''(based on casts)'' flat"
    and "unit = (if contains ''(based on level)'' flat then ''by level'' else ''by cast'')"
    and "rest = (if contains ''(based on level)'' flat
                 then strip (replace flat ''(based on level)'' [])
                 else strip (replace flat ''(based on casts)'' []))"
  shows "(length (findall rnumber rest) \<noteq> 2 \<longrightarrow> parse_flat flat n = Inl AssertionError)
       \<and> (\<forall>a b. findall rnumber rest = [a, b]
                 \<and> (py_eval a = Inl SyntaxError \<or> py_eval b = Inl SyntaxError) \<longrightarrow>
            parse_flat flat n = Inl SyntaxError)
       \<and> (\<forall>a b minn maxx.
            findall rnumber rest = [a, b] \<and> py_eval a = Inr minn \<and> py_eval b = Inr maxx
            \<and> (py_sub maxx minn = Inl OverflowError
                \<or> (\<exists>diff. py_sub maxx minn = Inr diff \<and> to_float diff = Inl OverflowError)
                \<or> to_float minn = Inl OverflowError) \<longrightarrow>
            parse_flat flat n = Inl OverflowError)
       \<and> (\<forall>a b minn maxx diff fdiff fminn.
            findall rnumber rest = [a, b] \<and> py_eval a = Inr minn \<and> py_eval b = Inr maxx
            \<and> py_sub maxx minn = Inr diff \<and> to_float diff = Inr fdiff
            \<and> to_float minn = Inr fminn \<longrightarrow>
            (\<exists>m. parse_flat flat n = Inr m
                \<and> sign m = ''+''
                \<and> length (mvalues m) = 18
                \<and> (\<forall>i<18. mvalues m ! i
                       = Num (PyFloat (fadd fminn (fmul (Fin (of_nat i)) (fdiv17 fdiff)))))
                \<and> munits m = replicate 18 unit))
       \<and> (\<forall>a b.
            findall rnumber rest = [a, b]
            \<and> (py_eval a = Inr (PyInt 0) \<or> py_eval a = Inr (PyFloat (Fin 0)))
            \<and> (py_eval b = Inr (PyInt 17) \<or> py_eval b = Inr (PyFloat (Fin 17))) \<longrightarrow>
            (\<exists>m. parse_flat flat n = Inr m
                \<and> mvalues m = map (\<lambda>i. Num (PyFloat (Fin (of_nat i)))) [0..<18]))"
proof -
  have pf: "parse_flat flat n = interpolate unit rest"
    using parse_flat_marker [OF assms(1)] assms(2,3) by simp
  have one: "length (findall rnumber rest) \<noteq> 2 \<longrightarrow> parse_flat flat n = Inl AssertionError"
    using pf by (simp add: interpolate_not_two)
  have syn: "parse_flat flat n = Inl SyntaxError"
    if "findall rnumber rest = [a, b]"
      "py_eval a = Inl SyntaxError \<or> py_eval b = Inl SyntaxError" for a b
    using pf interpolate_syntax_error [OF that] by simp
  have ovf: "parse_flat flat n = Inl OverflowError"
    if "findall rnumber rest = [a, b]" "py_eval a = Inr minn" "py_eval b = Inr maxx"
      "py_sub maxx minn = Inl OverflowError
       \<or> (\<exists>diff. py_sub maxx minn = Inr diff \<and> to_float diff = Inl OverflowError)
       \<or> to_float minn = Inl OverflowError" for a b minn maxx
    using pf interpolate_overflow [OF that] by simp
  have two: "\<exists>m. parse_flat flat n = Inr m
                \<and> sign m = ''+''
                \<and> length (mvalues m) = 18
                \<and> (\<forall>i<18. mvalues m ! i
                       = Num (PyFloat (fadd fminn (fmul (Fin (of_nat i)) (fdiv17 fdiff)))))
                \<and> munits m = replicate 18 unit"
    if h: "findall rnumber rest = [a, b]" "py_eval a = Inr minn" "py_eval b = Inr maxx"
      "py_sub maxx minn = Inr diff" "to_float diff = Inr fdiff" "to_float minn = Inr fminn"
    for a b minn maxx diff fdiff fminn
  proof -
    let ?m = "\<lparr>sign = ''+'',
                mvalues = map (\<lambda>i. Num (PyFloat (fadd fminn (fmul (Fin (of_nat i)) (fdiv17 fdiff)))))
                            [0..<18],
                munits = replicate 18 unit\<rparr>"
    have "parse_flat flat n = Inr ?m"
      using pf interpolate_two [OF h] by simp
    moreover have "length (mvalues ?m) = 18"
      by simp
    moreover have "\<forall>i<18. mvalues ?m ! i
                       = Num (PyFloat (fadd fminn (fmul (Fin (of_nat i)) (fdiv17 fdiff))))"
      by (simp del: upt_Suc)
    ultimately show ?thesis
      by (intro exI [of _ ?m]) simp
  qed
  have steps: "\<exists>m. parse_flat flat n = Inr m
                \<and> mvalues m = map (\<lambda>i. Num (PyFloat (Fin (of_nat i)))) [0..<18]"
    if h: "findall rnumber rest = [a, b]"
      "py_eval a = Inr (PyInt 0) \<or> py_eval a = Inr (PyFloat (Fin 0))"
      "py_eval b = Inr (PyInt 17) \<or> py_eval b = Inr (PyFloat (Fin 17))" for a b
  proof -
    from h(2) obtain minn where minn: "py_eval a = Inr minn" "to_float minn = Inr (Fin 0)"
      "minn = PyInt 0 \<or> minn = PyFloat (Fin 0)"
      by (auto simp: float_of_int_0)
    from h(3) obtain maxx where maxx: "py_eval b = Inr maxx"
      "maxx = PyInt 17 \<or> maxx = PyFloat (Fin 17)"
      by auto
    have "\<exists>diff. py_sub maxx minn = Inr diff \<and> to_float diff = Inr (Fin 17)"
      using minn(3) maxx(2)
      by (auto simp: float_of_int_0 float_of_int_17 fsub_def round_double_17)
    then obtain diff where diff: "py_sub maxx minn = Inr diff" "to_float diff = Inr (Fin 17)"
      by blast
    from two [OF h(1) minn(1) maxx(1) diff minn(2)] obtain m where
      m: "parse_flat flat n = Inr m" "length (mvalues m) = 18"
        "\<forall>i<18. mvalues m ! i = Num (PyFloat (fadd (Fin 0) (fmul (Fin (of_nat i)) (fdiv17 (Fin 17)))))"
      by blast
    have "mvalues m = map (\<lambda>i. Num (PyFloat (Fin (of_nat i)))) [0..<18]"
    proof (rule nth_equalityI)
      show "length (mvalues m) = length (map (\<lambda>i. Num (PyFloat (Fin (of_nat i)))) [0..<18])"
        using m(2) by simp
    next
      fix i
      assume "i < length (mvalues m)"
      with m(2) have i: "i < 18" by simp
      with m(3) unit_steps [OF i]
      show "mvalues m ! i = map (\<lambda>i. Num (PyFloat (Fin (of_nat i)))) [0..<18] ! i"
        by (simp del: upt_Suc)
    qed
    with m(1) show ?thesis by blast
  qed
  from one syn ovf two steps show ?thesis by blast
qed

theorem interpolated_fragment_witness:
  "contains ''(based on level)'' ''0 - 17 (based on level)''
   \<and> findall rnumber (strip (replace ''0 - 17 (based on level)'' ''(based on level)'' []))
       = [''0'', ''17'']
   \<and> py_eval ''0'' = Inr (PyInt 0) \<and> py_eval ''17'' = Inr (PyInt 17)
   \<and> (\<exists>m. parse_flat ''0 - 17 (based on level)'' 5 = Inr m
          \<and> mvalues m = map (\<lambda>i. Num (PyFloat (Fin (of_nat i)))) [0..<18])"
proof -
  let ?flat = "''0 - 17 (based on level)''"
  let ?rest = "strip (replace ?flat ''(based on level)'' [])"
  have c: "contains ''(based on level)'' ?flat"
    by code_simp
  have u: "''by level'' = (if contains ''(based on level)'' ?flat then ''by level'' else ''by cast'')"
    using c by simp
  have r: "?rest = (if contains ''(based on level)'' ?flat
                 then strip (replace ?flat ''(based on level)'' [])
                 else strip (replace ?flat ''(based on casts)'' []))"
    using c by simp
  have n: "findall rnumber ?rest = [''0'', ''17'']"
    by code_simp
  have e0: "py_eval ''0'' = Inr (PyInt 0)"
    by code_simp
  have e17: "py_eval ''17'' = Inr (PyInt 17)"
    by code_simp
  from interpolated_fragment [OF disjI1 [OF c] u r, of 5] n e0 e17
  have "\<exists>m. parse_flat ?flat 5 = Inr m
          \<and> mvalues m = map (\<lambda>i. Num (PyFloat (Fin (of_nat i)))) [0..<18]"
    by blast
  with c n e0 e17 show ?thesis by blast
qed

text \<open>
  The claim C3 itself fails. The first fragment below has the marker and exactly two
  numeric literals, and parsing raises SyntaxError instead of yielding a modifier.
  The second yields a modifier whose last value, which the claim has equal to the
  maximum 3.1, is the next float above it: the values are sums of rounded products,
  not the exact \<open>min + i * (max - min) / 17\<close>.
\<close>

theorem interpolated_fragment_counterexample:
  "findall rnumber (strip (replace ''01 - 18 (based on level)'' ''(based on level)'' []))
     = [''01'', ''18'']
   \<and> parse_flat ''01 - 18 (based on level)'' 5 = Inl SyntaxError
   \<and> findall rnumber (strip (replace ''0 - 3.1 (based on level)'' ''(based on level)'' []))
       = [''0'', ''3.1'']
   \<and> py_eval ''3.1'' = Inr (PyFloat (Fin (6980579422424269 / 2251799813685248)))
   \<and> round_double (31 / 10) = Fin (6980579422424269 / 2251799813685248)
   \<and> \<not> isl (parse_flat ''0 - 3.1 (based on level)'' 5)
   \<and> mvalues (projr (parse_flat ''0 - 3.1 (based on level)'' 5)) ! 17
       = Num (PyFloat (Fin (6980579422424270 / 2251799813685248)))"
proof -
  let ?flat = "''0 - 3.1 (based on level)''"
  let ?rest = "strip (replace ?flat ''(based on level)'' [])"
  have a: "findall rnumber (strip (replace ''01 - 18 (based on level)'' ''(based on level)'' []))
     = [''01'', ''18'']"
    by code_simp
  have b: "parse_flat ''01 - 18 (based on level)'' 5 = Inl SyntaxError"
    by code_simp
  have c: "contains ''(based on level)'' ?flat"
    by code_simp
  have n: "findall rnumber ?rest = [''0'', ''3.1'']"
    by code_simp
  have e0: "py_eval ''0'' = Inr (PyInt 0)"
    by code_simp
  have e1: "py_eval ''3.1'' = Inr (PyFloat (Fin (6980579422424269 / 2251799813685248)))"
    by code_simp
  have r: "round_double (31 / 10) = Fin (6980579422424269 / 2251799813685248)"
    by code_simp
  have d: "py_sub (PyFloat (Fin (6980579422424269 / 2251799813685248))) (PyInt 0)
             = Inr (PyFloat (Fin (6980579422424269 / 2251799813685248)))"
    by code_simp
  have f0: "to_float (PyInt 0) = Inr (Fin 0)"
    by code_simp
  have v: "fadd (Fin 0) (fmul (Fin (of_nat 17)) (fdiv17 (Fin (6980579422424269 / 2251799813685248))))
             = Fin (6980579422424270 / 2251799813685248)"
    by code_simp
  have "parse_flat ?flat 5 = interpolate ''by level'' ?rest"
    using parse_flat_marker [of ?flat 5, OF disjI1 [OF c]] by (simp only: c if_True)
  also have "\<dots> = Inr \<lparr>sign = ''+'',
                mvalues = map (\<lambda>i. Num (PyFloat (fadd (Fin 0) (fmul (Fin (of_nat i))
                               (fdiv17 (Fin (6980579422424269 / 2251799813685248))))))) [0..<18],
                munits = replicate 18 ''by level''\<rparr>"
    using interpolate_two [OF n e0 e1 d _ f0] by simp
  finally have pf: "parse_flat ?flat 5 = Inr \<lparr>sign = ''+'',
                mvalues = map (\<lambda>i. Num (PyFloat (fadd (Fin 0) (fmul (Fin (of_nat i))
                               (fdiv17 (Fin (6980579422424269 / 2251799813685248))))))) [0..<18],
                munits = replicate 18 ''by level''\<rparr>" .
  have "mvalues (projr (parse_flat ?flat 5)) ! 17
       = Num (PyFloat (Fin (6980579422424270 / 2251799813685248)))"
    using v by (simp only: pf sum.sel AttributeModifier.simps) (simp del: upt_Suc)
  moreover have "\<not> isl (parse_flat ?flat 5)"
    by (simp only: pf) simp
  ultimately show ?thesis
    using a b n e1 r by blast
qed

section \<open>One literal, or the first of several\<close>

lemma sequence_map_Inr:
  "\<forall>x\<in>set xs. f x = Inr (g x) \<Longrightarrow> sequence (map f xs) = Inr (map g xs)"
  by (induction xs) simp_all

lemma sequence_one_fails:
  "bad \<in> set xs \<Longrightarrow> f bad = Inl e \<Longrightarrow> \<forall>x\<in>set xs. f x = Inl e \<or> \<not> isl (f x) \<Longrightarrow>
     sequence (map f xs) = Inl e"
proof (induction xs)
  case Nil
  then show ?case by simp
next
  case (Cons x xs)
  show ?case
  proof (cases "f x")
    case (Inl e')
    with Cons.prems(3) show ?thesis by simp
  next
    case (Inr v)
    with Cons.prems(1,2) have "bad \<in> set xs" by auto
    with Cons.IH Cons.prems(2,3) have "sequence (map f xs) = Inl e"
      by simp
    with Inr show ?thesis by simp
  qed
qed

lemma scaling_value_leading:
  assumes "findall rnumber val = v # others" and "startswith val v" and "py_eval v = Inr k"
  shows "scaling_value val = Inr (Num k, drop (length v) val)"
  using assms by (simp add: scaling_value_def)

text \<open>
  Claim C9, as the code has it. Let every sub-fragment of a scaling fragment start
  with its first numeric literal, a literal that Python evaluates. Then the scaling
  path builds the modifier, however many further literals the sub-fragments hold:
  the sign is the first character of the fragment, the value at each position is the
  first literal of the sub-fragment and the unit is the whole remainder of the
  sub-fragment behind that literal, in which the further literals are found. The
  flat path fails on a fragment that has a sub-fragment with more than one literal.
\<close>

theorem scaling_takes_first_literal:
  assumes "unwrap scaling = modifier # rest"
    and "subs = levels (strip rest) num_levels"
    and "\<forall>val\<in>set subs. \<exists>v others k.
           findall rnumber val = v # others \<and> startswith val v \<and> py_eval v = Inr k"
  shows "(\<exists>m. parse_scaling scaling num_levels = Inr m
            \<and> sign m = [modifier]
            \<and> length (mvalues m) = length subs
            \<and> length (munits m) = length subs
            \<and> (\<forall>i<length subs. \<forall>v others k.
                  findall rnumber (subs ! i) = v # others \<and> py_eval v = Inr k \<longrightarrow>
                  mvalues m ! i = Num k
                  \<and> munits m ! i = drop (length v) (subs ! i)
                  \<and> subs ! i = v @ munits m ! i
                  \<and> findall rnumber (munits m ! i) = others))
       \<and> (\<forall>flat. \<not> contains ''(based on level)'' flat \<and> \<not> contains ''(based on casts)'' flat
                 \<and> levels (unwrap flat) num_levels = subs
                 \<and> (\<exists>val\<in>set subs. 1 < length (findall rnumber val)) \<longrightarrow>
                 parse_flat flat num_levels = Inl AssertionError)"
proof -
  let ?v = "\<lambda>val. hd (findall rnumber val)"
  let ?g = "\<lambda>val. (Num (projr (py_eval (?v val))), drop (length (?v val)) val)"
  have each: "scaling_value val = Inr (?g val)" if "val \<in> set subs" for val
  proof -
    from assms(3) that obtain v others k where
      "findall rnumber val = v # others" "startswith val v" "py_eval v = Inr k"
      by blast
    with scaling_value_leading [OF this] show ?thesis by simp
  qed
  then have "sequence (map scaling_value subs) = Inr (map ?g subs)"
    by (intro sequence_map_Inr) blast
  then have ps: "parse_scaling scaling num_levels
                   = Inr \<lparr>sign = [modifier], mvalues = map fst (map ?g subs),
                          munits = map snd (map ?g subs)\<rparr>"
    using assms(1,2) by (simp add: parse_scaling_def)
  let ?m = "\<lparr>sign = [modifier], mvalues = map fst (map ?g subs),
              munits = map snd (map ?g subs)\<rparr>"
  have pos: "mvalues ?m ! i = Num k \<and> munits ?m ! i = drop (length v) (subs ! i)
             \<and> subs ! i = v @ munits ?m ! i \<and> findall rnumber (munits ?m ! i) = others"
    if i: "i < length subs" and f: "findall rnumber (subs ! i) = v # others"
      and e: "py_eval v = Inr k" for i v others k
  proof -
    from assms(3) i f have sw: "startswith (subs ! i) v"
      by (metis list.inject nth_mem)
    then have "subs ! i = v @ drop (length v) (subs ! i)"
      by (metis append_take_drop_id startswith_def)
    moreover have "findall rnumber (drop (length v) (subs ! i)) = others"
      using findall_rnumber_prefix [OF f sw] by simp
    ultimately show ?thesis
      using i f e by simp
  qed
  have scal: "\<exists>m. parse_scaling scaling num_levels = Inr m
            \<and> sign m = [modifier]
            \<and> length (mvalues m) = length subs
            \<and> length (munits m) = length subs
            \<and> (\<forall>i<length subs. \<forall>v others k.
                  findall rnumber (subs ! i) = v # others \<and> py_eval v = Inr k \<longrightarrow>
                  mvalues m ! i = Num k
                  \<and> munits m ! i = drop (length v) (subs ! i)
                  \<and> subs ! i = v @ munits m ! i
                  \<and> findall rnumber (munits m ! i) = others)"
    using ps pos by (intro exI [of _ ?m]) simp
  have flat: "parse_flat flat num_levels = Inl AssertionError"
    if nm: "\<not> contains ''(based on level)'' flat" "\<not> contains ''(based on casts)'' flat"
      and lv: "levels (unwrap flat) num_levels = subs"
      and two: "\<exists>val\<in>set subs. 1 < length (findall rnumber val)" for flat
  proof -
    have fv: "flat_value val = Inl AssertionError \<or> \<not> isl (flat_value val)"
      if "val \<in> set subs" for val
    proof -
      from assms(3) that obtain v others k where
        h: "findall rnumber val = v # others" "startswith val v" "py_eval v = Inr k"
        by blast
      then show ?thesis
        by (cases others) (simp_all add: flat_value_def)
    qed
    from two obtain bad where bad: "bad \<in> set subs" "1 < length (findall rnumber bad)"
      by blast
    then have "flat_value bad = Inl AssertionError"
      by (auto simp: flat_value_def split: list.splits)
    from sequence_one_fails [of bad subs flat_value AssertionError, OF bad(1) this] fv
    have "sequence (map flat_value subs) = Inl AssertionError"
      by blast
    with nm lv show ?thesis
      by (simp add: parse_flat_def)
  qed
  from scal flat show ?thesis by blast
qed

lemma two_entries: "length xs = 2 \<Longrightarrow> xs = [xs ! 0, xs ! 1]"
  by (cases xs; cases "tl xs") auto

theorem scaling_takes_first_literal_witness:
  "unwrap ''(+ 0.5% per 100 AP / 1% per 100 AP)'' = CHR ''+'' # '' 0.5% per 100 AP / 1% per 100 AP''
   \<and> levels (strip '' 0.5% per 100 AP / 1% per 100 AP'') 5
       = [''0.5% per 100 AP'', ''1% per 100 AP'']
   \<and> findall rnumber ''0.5% per 100 AP'' = [''0.5'', ''100'']
   \<and> findall rnumber ''1% per 100 AP'' = [''1'', ''100'']
   \<and> parse_scaling ''(+ 0.5% per 100 AP / 1% per 100 AP)'' 5
       = Inr \<lparr>sign = ''+'', mvalues = [Num (PyFloat (Fin (1 / 2))), Num (PyInt 1)],
              munits = [''% per 100 AP'', ''% per 100 AP'']\<rparr>
   \<and> levels (unwrap ''0.5% per 100 AP / 1% per 100 AP'') 5
       = [''0.5% per 100 AP'', ''1% per 100 AP'']
   \<and> parse_flat ''0.5% per 100 AP / 1% per 100 AP'' 5 = Inl AssertionError"
proof -
  let ?subs = "[''0.5% per 100 AP'', ''1% per 100 AP'']"
  have a: "unwrap ''(+ 0.5% per 100 AP / 1% per 100 AP)''
             = CHR ''+'' # '' 0.5% per 100 AP / 1% per 100 AP''"
    by code_simp
  have b: "?subs = levels (strip '' 0.5% per 100 AP / 1% per 100 AP'') 5"
    by code_simp
  have f1: "findall rnumber ''0.5% per 100 AP'' = ''0.5'' # [''100'']"
    by code_simp
  have f2: "findall rnumber ''1% per 100 AP'' = ''1'' # [''100'']"
    by code_simp
  have s1: "startswith ''0.5% per 100 AP'' ''0.5''"
    by code_simp
  have s2: "startswith ''1% per 100 AP'' ''1''"
    by code_simp
  have e1: "py_eval ''0.5'' = Inr (PyFloat (Fin (1 / 2)))"
    by code_simp
  have e2: "py_eval ''1'' = Inr (PyInt 1)"
    by code_simp
  have d1: "drop (length ''0.5'') ''0.5% per 100 AP'' = ''% per 100 AP''"
    by simp
  have d2: "drop (length ''1'') ''1% per 100 AP'' = ''% per 100 AP''"
    by simp
  have c: "\<forall>val\<in>set ?subs. \<exists>v others k.
           findall rnumber val = v # others \<and> startswith val v \<and> py_eval v = Inr k"
  proof
    fix val
    assume "val \<in> set ?subs"
    then have "val = ''0.5% per 100 AP'' \<or> val = ''1% per 100 AP''"
      by simp
    then show "\<exists>v others k.
           findall rnumber val = v # others \<and> startswith val v \<and> py_eval v = Inr k"
      using f1 s1 e1 f2 s2 e2 by blast
  qed
  have nm1: "\<not> contains ''(based on level)'' ''0.5% per 100 AP / 1% per 100 AP''"
    by code_simp
  have nm2: "\<not> contains ''(based on casts)'' ''0.5% per 100 AP / 1% per 100 AP''"
    by code_simp
  have lv: "levels (unwrap ''0.5% per 100 AP / 1% per 100 AP'') 5 = ?subs"
    by code_simp
  note t = scaling_takes_first_literal [OF a b c]
  from t [THEN conjunct1] obtain m where
    m: "parse_scaling ''(+ 0.5% per 100 AP / 1% per 100 AP)'' 5 = Inr m
        \<and> sign m = [CHR ''+'']
        \<and> length (mvalues m) = length ?subs
        \<and> length (munits m) = length ?subs
        \<and> (\<forall>i<length ?subs. \<forall>v others k.
              findall rnumber (?subs ! i) = v # others \<and> py_eval v = Inr k \<longrightarrow>
              mvalues m ! i = Num k \<and> munits m ! i = drop (length v) (?subs ! i)
              \<and> ?subs ! i = v @ munits m ! i \<and> findall rnumber (munits m ! i) = others)" ..
  note m1 = m [THEN conjunct1]
  note m2 = m [THEN conjunct2, THEN conjunct1]
  note m3 = m [THEN conjunct2, THEN conjunct2, THEN conjunct1]
  note m4 = m [THEN conjunct2, THEN conjunct2, THEN conjunct2, THEN conjunct1]
  note m5 = m [THEN conjunct2, THEN conjunct2, THEN conjunct2, THEN conjunct2, rule_format]
  have i0: "0 < length ?subs" and i1: "1 < length ?subs"
    by simp_all
  have n0: "?subs ! 0 = ''0.5% per 100 AP''" and n1: "?subs ! 1 = ''1% per 100 AP''"
    by simp_all
  from m5 [OF i0, of "''0.5''" "[''100'']" "PyFloat (Fin (1 / 2))"] f1 e1
  have v0: "mvalues m ! 0 = Num (PyFloat (Fin (1 / 2)))" "munits m ! 0 = ''% per 100 AP''"
    by (simp_all only: n0 d1 simp_thms)
  from m5 [OF i1, of "''1''" "[''100'']" "PyInt 1"] f2 e2
  have v1: "mvalues m ! 1 = Num (PyInt 1)" "munits m ! 1 = ''% per 100 AP''"
    by (simp_all only: n1 d2 simp_thms)
  have "length (mvalues m) = 2" "length (munits m) = 2"
    using m3 m4 by simp_all
  then have "mvalues m = [Num (PyFloat (Fin (1 / 2))), Num (PyInt 1)]"
    "munits m = [''% per 100 AP'', ''% per 100 AP'']"
    using two_entries [of "mvalues m"] two_entries [of "munits m"] v0 v1 by simp_all
  with m1 m2 have ps: "parse_scaling ''(+ 0.5% per 100 AP / 1% per 100 AP)'' 5
       = Inr \<lparr>sign = ''+'', mvalues = [Num (PyFloat (Fin (1 / 2))), Num (PyInt 1)],
              munits = [''% per 100 AP'', ''% per 100 AP'']\<rparr>"
    by (cases m) simp
  have two: "\<exists>val\<in>set ?subs. 1 < length (findall rnumber val)"
    by (rule bexI [of _ "''0.5% per 100 AP''"]) (simp_all only: f1, simp_all)
  have pf: "parse_flat ''0.5% per 100 AP / 1% per 100 AP'' 5 = Inl AssertionError"
    by (rule t [THEN conjunct2, rule_format]) (intro conjI nm1 nm2 lv two)
  from a b [symmetric] f1 f2 ps lv pf show ?thesis
    by (intro conjI)
qed

text \<open>
  The claim C9 itself fails: a scaling sub-fragment with a numeric literal is turned
  down when it does not start with the literal, and in the one bracketed form that is
  accepted without starting with the literal, the unit is not the remainder behind
  the literal but the sub-fragment without its first character.
\<close>

theorem scaling_takes_first_literal_counterexample:
  "findall rnumber ''about 5% per 100 AP'' = [''5'', ''100'']
   \<and> scaling_value ''about 5% per 100 AP'' = Inl AssertionError
   \<and> parse_scaling ''(+ about 5% per 100 AP)'' 5 = Inl AssertionError
   \<and> findall rnumber ''[ 1% per 35 ]bonus AD'' = [''1'', ''35'']
   \<and> parse_scaling ''(+[ 1% per 35 ]bonus AD)'' 5
       = Inr \<lparr>sign = ''+'', mvalues = replicate 5 (Num (PyInt 1)),
              munits = replicate 5 '' 1% per 35 ]bonus AD''\<rparr>
   \<and> '' 1% per 35 ]bonus AD'' \<noteq> ''% per 35 ]bonus AD''"
  by code_simp

section \<open>A literal that does not lead its sub-fragment\<close>

lemma digit_not_space: "is_digit c \<Longrightarrow> \<not> is_space c"
  by (auto simp: is_digit_def is_space_def)

lemma startswith_lstrip:
  assumes "startswith val v" and "v \<noteq> []" and "is_digit (hd v)"
  shows "startswith (dropWhile is_space val) v"
proof -
  from assms(1,2) obtain c cs where "val = c # cs" "hd v = c"
    by (cases val; cases v) (auto simp: startswith_def)
  with assms(3) have "dropWhile is_space val = val"
    by (simp add: digit_not_space)
  with assms(1) show ?thesis by simp
qed

lemma sequence_fails:
  "x \<in> set xs \<Longrightarrow> f x = Inl e \<Longrightarrow> \<exists>e'. sequence (map f xs) = Inl e'"
  by (induction xs) (auto split: sum.splits)

text \<open>
  Claim C6, as the code has it. Let \<open>v\<close> be the first numeric literal of a
  sub-fragment. A literal that is not a prefix of the sub-fragment once the leading
  white space is dropped is not a prefix of the sub-fragment either. In the flat path
  the extraction fails with the assertion error whenever \<open>v\<close> is not a prefix of the
  sub-fragment. In the scaling path it fails so whenever \<open>v\<close> is not a prefix and the
  sub-fragment does not start with an opening bracket, a space and \<open>v\<close> either. The
  failure of one sub-fragment fails the construction of the whole modifier.
\<close>

theorem literal_must_lead:
  assumes "findall rnumber val = v # others"
  shows "(\<not> startswith (dropWhile is_space val) v \<longrightarrow> \<not> startswith val v)
       \<and> (\<not> startswith val v \<longrightarrow> flat_value val = Inl AssertionError)
       \<and> (\<not> startswith val v \<and> \<not> startswith val (''[ '' @ v) \<longrightarrow>
             scaling_value val = Inl AssertionError)
       \<and> (\<not> startswith val v
            \<and> \<not> contains ''(based on level)'' flat \<and> \<not> contains ''(based on casts)'' flat
            \<and> val \<in> set (levels (unwrap flat) num_levels) \<longrightarrow>
             (\<exists>e. parse_flat flat num_levels = Inl e))
       \<and> (\<not> startswith val v \<and> \<not> startswith val (''[ '' @ v)
            \<and> val \<in> set (levels (strip (tl (unwrap scaling))) num_levels) \<longrightarrow>
             (\<exists>e. parse_scaling scaling num_levels = Inl e))"
proof -
  from findall_rnumber_head [OF assms] have v: "v \<noteq> []" "is_digit (hd v)"
    by simp_all
  have lead: "\<not> startswith (dropWhile is_space val) v \<longrightarrow> \<not> startswith val v"
    using startswith_lstrip [OF _ v] by blast
  have fl: "\<not> startswith val v \<longrightarrow> flat_value val = Inl AssertionError"
    using assms by (cases others) (simp_all add: flat_value_def)
  have sc: "\<not> startswith val v \<and> \<not> startswith val (''[ '' @ v) \<longrightarrow>
             scaling_value val = Inl AssertionError"
    using assms by (simp add: scaling_value_def)
  have pf: "\<exists>e. parse_flat flat num_levels = Inl e"
    if "\<not> startswith val v" "\<not> contains ''(based on level)'' flat"
      "\<not> contains ''(based on casts)'' flat" "val \<in> set (levels (unwrap flat) num_levels)"
  proof -
    from that(1) fl have "flat_value val = Inl AssertionError" by simp
    from sequence_fails [of val _ flat_value, OF that(4) this] obtain e where
      "sequence (map flat_value (levels (unwrap flat) num_levels)) = Inl e" ..
    with that(2,3) show ?thesis by (simp add: parse_flat_def)
  qed
  have ps: "\<exists>e. parse_scaling scaling num_levels = Inl e"
    if "\<not> startswith val v" "\<not> startswith val (''[ '' @ v)"
      "val \<in> set (levels (strip (tl (unwrap scaling))) num_levels)"
  proof (cases "unwrap scaling")
    case Nil
    then show ?thesis by (simp add: parse_scaling_def)
  next
    case (Cons modifier rest)
    from that(1,2) sc have "scaling_value val = Inl AssertionError" by simp
    from sequence_fails [of val "levels (strip rest) num_levels" scaling_value, OF _ this]
      that(3) Cons
    obtain e where "sequence (map scaling_value (levels (strip rest) num_levels)) = Inl e"
      by auto
    with Cons show ?thesis by (simp add: parse_scaling_def)
  qed
  from lead fl sc pf ps show ?thesis by blast
qed

theorem literal_must_lead_witness:
  "findall rnumber ''about 5% AP'' = [''5'']
   \<and> \<not> startswith ''about 5% AP'' ''5''
   \<and> \<not> startswith ''about 5% AP'' (''[ '' @ ''5'')
   \<and> flat_value ''about 5% AP'' = Inl AssertionError
   \<and> scaling_value ''about 5% AP'' = Inl AssertionError
   \<and> ''about 5% AP'' \<in> set (levels (unwrap ''50 / about 5% AP'') 5)
   \<and> (\<exists>e. parse_flat ''50 / about 5% AP'' 5 = Inl e)
   \<and> ''about 5% AP'' \<in> set (levels (strip (tl (unwrap ''(+ 50 / about 5% AP)''))) 5)
   \<and> (\<exists>e. parse_scaling ''(+ 50 / about 5% AP)'' 5 = Inl e)"
proof -
  have a: "findall rnumber ''about 5% AP'' = [''5'']"
    by code_simp
  have b: "\<not> startswith ''about 5% AP'' ''5''"
    by code_simp
  have c: "\<not> startswith ''about 5% AP'' (''[ '' @ ''5'')"
    by code_simp
  have d: "\<not> contains ''(based on level)'' ''50 / about 5% AP''"
    by code_simp
  have e: "\<not> contains ''(based on casts)'' ''50 / about 5% AP''"
    by code_simp
  have f: "''about 5% AP'' \<in> set (levels (unwrap ''50 / about 5% AP'') 5)"
    by code_simp
  have g: "''about 5% AP'' \<in> set (levels (strip (tl (unwrap ''(+ 50 / about 5% AP)''))) 5)"
    by code_simp
  from literal_must_lead [OF a, of "''50 / about 5% AP''" 5 "''(+ 50 / about 5% AP)''"]
    a b c d e f g
  show ?thesis by blast
qed

text \<open>
  The claim C6 itself fails on the scaling path: the sub-fragment below has the
  first literal 1, which is not a prefix of it, with or without the leading white
  space, and the extraction succeeds all the same, with the value 1.
\<close>

theorem literal_must_lead_counterexample:
  "findall rnumber ''[ 1% per 35 ][ 2.86% per 100 ]bonus AD'' = [''1'', ''35'', ''2.86'', ''100'']
   \<and> \<not> startswith ''[ 1% per 35 ][ 2.86% per 100 ]bonus AD'' ''1''
   \<and> \<not> startswith (dropWhile is_space ''[ 1% per 35 ][ 2.86% per 100 ]bonus AD'') ''1''
   \<and> scaling_value ''[ 1% per 35 ][ 2.86% per 100 ]bonus AD''
       = Inr (Num (PyInt 1), '' 1% per 35 ][ 2.86% per 100 ]bonus AD'')
   \<and> parse_scaling ''(+[ 1% per 35 ][ 2.86% per 100 ]bonus AD)'' 5
       = Inr \<lparr>sign = ''+'', mvalues = replicate 5 (Num (PyInt 1)),
              munits = replicate 5 '' 1% per 35 ][ 2.86% per 100 ]bonus AD''\<rparr>"
  by code_simp

section \<open>The units of a modifier\<close>









section \<open>A span without a numeric literal\<close>

lemma findall_rnumber_Nil_iff: "findall rnumber s = [] \<longleftrightarrow> (\<forall>c\<in>set s. \<not> is_digit c)"
proof
  show "findall rnumber s = [] \<Longrightarrow> \<forall>c\<in>set s. \<not> is_digit c"
  proof (induction s)
    case Nil
    then show ?case by simp
  next
    case (Cons c cs)
    have nd: "\<not> is_digit c"
    proof
      assume "is_digit c"
      then obtain g where "rnumber (c # cs) = Some (g, length g)"
        using rnumber_digit by blast
      with Cons.prems show False by simp
    qed
    then have "rnumber (c # cs) = None"
      by (simp add: rnumber_def)
    with Cons nd show ?case by simp
  qed
qed (rule findall_rnumber_Nil)

lemma no_literal_subset:
  "findall rnumber s = [] \<Longrightarrow> set t \<subseteq> set s \<Longrightarrow> findall rnumber t = []"
  unfolding findall_rnumber_Nil_iff by blast

lemma set_strip: "set (strip s) \<subseteq> set s"
proof -
  have "set (strip s) = set (dropWhile is_space (rev (dropWhile is_space s)))"
    by (simp add: strip_def)
  also have "\<dots> \<subseteq> set (rev (dropWhile is_space s))"
    by (rule set_dropWhileD [THEN subsetI])
  also have "\<dots> \<subseteq> set s"
    using set_dropWhileD [of _ is_space s] by auto
  finally show ?thesis .
qed

lemma set_replace: "set (replace s old []) \<subseteq> set s"
proof (induction s old "[] :: string" rule: replace.induct)
  case (1 old)
  then show ?case by simp
next
  case (2 c cs old)
  then show ?case
    using set_drop_subset [of "length old - 1" cs] by (auto split: if_splits)
qed

lemma set_remove_scalings: "set (remove_scalings s gs) \<subseteq> set s"
proof (induction gs arbitrary: s)
  case Nil
  then show ?case by (simp add: remove_scalings_def)
next
  case (Cons g gs)
  have "set (remove_scalings (strip (replace s g [])) gs) \<subseteq> set (strip (replace s g []))"
    by (rule Cons.IH)
  also have "\<dots> \<subseteq> set s"
    using set_strip [of "replace s g []"] set_replace [of s g] by blast
  finally show ?case by (simp add: remove_scalings_def)
qed

lemma findall_group_subset:
  "\<forall>t g n. m t = Some (g, n) \<longrightarrow> set g \<subseteq> set t \<Longrightarrow>
     g \<in> set (findall m s) \<Longrightarrow> set g \<subseteq> set s"
proof (induction m s rule: findall.induct)
  case (1 m)
  then show ?case by simp
next
  case (2 m c cs)
  show ?case
  proof (cases "m (c # cs)")
    case None
    with 2 show ?thesis by auto
  next
    case (Some p)
    obtain h n where p: "p = (h, n)" by (cases p)
    from "2.prems" Some p have "g = h \<or> g \<in> set (findall m (drop (n - 1) cs))"
      by simp
    then show ?thesis
    proof
      assume "g = h"
      with "2.prems"(1) Some p show ?thesis by blast
    next
      assume "g \<in> set (findall m (drop (n - 1) cs))"
      with "2.IH"(2) [OF Some p [symmetric] "2.prems"(1)]
      have "set g \<subseteq> set (drop (n - 1) cs)"
        by simp
      then show ?thesis
        using set_drop_subset [of "n - 1" cs] by auto
    qed
  qed
qed

lemma rflat_subset: "rflat t = Some (g, n) \<Longrightarrow> set g \<subseteq> set t"
  by (auto simp: rflat_def Let_def split: list.splits if_splits dest: set_takeWhileD)

lemma rscaling_shape:
  "rscaling t = Some (g, n) \<Longrightarrow>
     \<exists>c body. g = CHR ''('' # CHR ''+'' # c # body @ '')'' \<and> set body \<subseteq> set t \<and> c \<in> set t"
  by (auto simp: rscaling_def Let_def split: list.splits if_splits dest: set_takeWhileD)

lemma findall_rscaling_shape:
  "g \<in> set (findall rscaling s) \<Longrightarrow>
     \<exists>c body. g = CHR ''('' # CHR ''+'' # c # body @ '')'' \<and> set body \<subseteq> set s \<and> c \<in> set s"
proof (induction rscaling s rule: findall.induct)
  case 1
  then show ?case by simp
next
  case (2 c cs)
  show ?case
  proof (cases "rscaling (c # cs)")
    case None
    with 2 show ?thesis by auto
  next
    case (Some p)
    obtain h n where p: "p = (h, n)" by (cases p)
    from "2.prems" Some p have "g = h \<or> g \<in> set (findall rscaling (drop (n - 1) cs))"
      by simp
    then show ?thesis
    proof
      assume "g = h"
      with rscaling_shape [of "c # cs" h n] Some p show ?thesis by simp
    next
      assume "g \<in> set (findall rscaling (drop (n - 1) cs))"
      with "2.hyps"(2) [OF Some p [symmetric]] obtain d body where
        "g = CHR ''('' # CHR ''+'' # d # body @ '')''" "set body \<subseteq> set (drop (n - 1) cs)"
        "d \<in> set (drop (n - 1) cs)"
        by blast
      then show ?thesis
        using set_drop_subset [of "n - 1" cs] by auto
    qed
  qed
qed

lemma split_acc_subset: "p \<in> set (split_acc acc s sep) \<Longrightarrow> set p \<subseteq> set acc \<union> set s"
proof (induction acc s sep rule: split_acc.induct)
  case (1 acc sep)
  then show ?case by simp
next
  case (2 acc c cs sep)
  show ?case
  proof (cases "sep \<noteq> [] \<and> startswith (c # cs) sep")
    case True
    with "2.prems" have "p = rev acc \<or> p \<in> set (split_acc [] (drop (length sep - 1) cs) sep)"
      by auto
    then show ?thesis
    proof
      assume "p = rev acc"
      then show ?thesis by auto
    next
      assume "p \<in> set (split_acc [] (drop (length sep - 1) cs) sep)"
      with "2.IH"(1) [OF True] have "set p \<subseteq> set (drop (length sep - 1) cs)"
        by simp
      then show ?thesis
        using set_drop_subset [of "length sep - 1" cs] by auto
    qed
  next
    case False
    with "2.prems" have "p \<in> set (split_acc (c # acc) cs sep)"
      by auto
    with "2.IH"(2) [OF False] show ?thesis by auto
  qed
qed

lemma split_acc_not_Nil: "split_acc acc s sep \<noteq> []"
  by (induction acc s sep rule: split_acc.induct) auto

lemma str_split_subset: "p \<in> set (str_split s sep) \<Longrightarrow> set p \<subseteq> set s"
  using split_acc_subset [of p "[]" s sep] by (simp add: str_split_def)

lemma str_split_not_Nil: "str_split s sep \<noteq> []"
  by (simp add: str_split_def split_acc_not_Nil)

lemma levels_subset: "p \<in> set (levels s n) \<Longrightarrow> set p \<subseteq> set s"
  by (auto simp: levels_def dest: str_split_subset split: if_splits)

lemma levels_not_Nil: "0 < n \<Longrightarrow> levels s n \<noteq> []"
  by (simp add: levels_def str_split_not_Nil)

lemma set_unwrap: "set (unwrap s) \<subseteq> set s"
proof -
  have "set (tl s) \<subseteq> set s"
    by (cases s) auto
  moreover have "set (butlast (tl s)) \<subseteq> set (tl s)"
    by (auto dest: in_set_butlastD)
  ultimately have "set (strip (butlast (tl s))) \<subseteq> set s"
    using set_strip [of "butlast (tl s)"] by blast
  then show ?thesis by (simp add: unwrap_def)
qed

lemma sequence_all_fail:
  "xs \<noteq> [] \<Longrightarrow> \<forall>x\<in>set xs. f x = Inl e \<Longrightarrow> sequence (map f xs) = Inl e"
  by (cases xs) simp_all

lemma sequence_cases:
  "\<forall>x\<in>set xs. f x = Inl e \<or> (\<exists>v. f x = Inr v \<and> P v) \<Longrightarrow>
     sequence (map f xs) = Inl e
     \<or> (\<exists>vs. sequence (map f xs) = Inr vs \<and> length vs = length xs \<and> (\<forall>v\<in>set vs. P v))"
proof (induction xs)
  case Nil
  then show ?case by simp
next
  case (Cons x xs)
  from Cons.prems have "f x = Inl e \<or> (\<exists>v. f x = Inr v \<and> P v)"
    by simp
  then show ?case
  proof
    assume "f x = Inl e"
    then show ?thesis by simp
  next
    assume "\<exists>v. f x = Inr v \<and> P v"
    then obtain v where v: "f x = Inr v" "P v" by blast
    from Cons have "sequence (map f xs) = Inl e
     \<or> (\<exists>vs. sequence (map f xs) = Inr vs \<and> length vs = length xs \<and> (\<forall>v\<in>set vs. P v))"
      by simp
    then show ?thesis
    proof
      assume "sequence (map f xs) = Inl e"
      with v show ?thesis by simp
    next
      assume "\<exists>vs. sequence (map f xs) = Inr vs \<and> length vs = length xs \<and> (\<forall>v\<in>set vs. P v)"
      then obtain vs where "sequence (map f xs) = Inr vs" "length vs = length xs"
        "\<forall>v\<in>set vs. P v"
        by blast
      with v show ?thesis by simp
    qed
  qed
qed

lemma flat_value_no_literal: "findall rnumber val = [] \<Longrightarrow> flat_value val = Inl AssertionError"
  by (simp add: flat_value_def)

lemma parse_flat_no_literal:
  assumes "findall rnumber flat = []"
  shows "parse_flat flat 5 = Inl AssertionError"
proof (cases "contains ''(based on level)'' flat \<or> contains ''(based on casts)'' flat")
  case True
  have "findall rnumber (strip (replace flat marker [])) = []" for marker
    using no_literal_subset [OF assms] set_strip [of "replace flat marker []"]
      set_replace [of flat marker]
    by blast
  then have "interpolate unit (strip (replace flat marker [])) = Inl AssertionError"
    for unit marker
    by (simp add: interpolate_not_two)
  with True show ?thesis
    by (auto simp: parse_flat_def)
next
  case False
  have "\<forall>val\<in>set (levels (unwrap flat) 5). flat_value val = Inl AssertionError"
    using no_literal_subset [OF assms] set_unwrap [of flat] levels_subset [of _ "unwrap flat" 5]
      flat_value_no_literal
    by blast
  then have "sequence (map flat_value (levels (unwrap flat) 5)) = Inl AssertionError"
    by (intro sequence_all_fail levels_not_Nil) simp_all
  with False show ?thesis
    by (simp add: parse_flat_def)
qed

lemma flat_fragments_no_literal:
  assumes "findall rnumber s = []"
  shows "(findall rflat s = [] \<longrightarrow> flat_fragments s = [])
       \<and> (findall rflat s \<noteq> [] \<longrightarrow> flat_fragments s \<noteq> [])
       \<and> (\<forall>f\<in>set (flat_fragments s). findall rnumber f = [])"
proof -
  let ?flat = "concat (map (\<lambda>x. str_split (strip x) '' + '') (findall rflat s))"
  have ff: "flat_fragments s = ?flat"
    using assms by (simp add: flat_fragments_def Let_def)
  have "findall rflat s \<noteq> [] \<longrightarrow> ?flat \<noteq> []"
    by (cases "findall rflat s") (simp_all add: str_split_not_Nil)
  moreover have "findall rnumber f = []" if "f \<in> set ?flat" for f
  proof -
    from that obtain g where g: "g \<in> set (findall rflat s)" "f \<in> set (str_split (strip g) '' + '')"
      by auto
    from g(1) have "set g \<subseteq> set s"
      using findall_group_subset [of rflat g s] rflat_subset by blast
    moreover from g(2) have "set f \<subseteq> set g"
      using str_split_subset [of f "strip g"] set_strip [of g] by blast
    ultimately show ?thesis
      using no_literal_subset [OF assms] by blast
  qed
  ultimately show ?thesis
    using ff by simp
qed

lemma strip_head:
  assumes "\<not> is_space a"
  shows "strip (a # t) = a # rev (dropWhile is_space (rev t))"
  using assms by (simp add: strip_def dropWhile_append3)

lemma strip_keep:
  assumes "\<not> is_space a" and "\<not> is_space b"
  shows "strip (a # t @ [b]) = a # t @ [b]"
  using assms by (simp add: strip_head)

lemma endswith_snoc: "endswith (xs @ [a]) [a]"
  by (simp add: endswith_def)

lemma scaling_value_no_literal:
  "findall rnumber val = [] \<Longrightarrow>
     scaling_value val = Inl AssertionError
     \<or> scaling_value val = Inr (Str ''Siphoning Strike stacks'', [])"
  by (simp add: scaling_value_def)

lemma parse_scaling_no_literal:
  assumes "g = CHR ''('' # CHR ''+'' # c # body @ '')''" and "findall rnumber g = []"
  shows "parse_scaling (strip g) 5 = Inl AssertionError
       \<or> (\<exists>m. parse_scaling (strip g) 5 = Inr m \<and> sign m = ''+''
              \<and> set (mvalues m) \<subseteq> {Str ''Siphoning Strike stacks''}
              \<and> set (munits m) \<subseteq> {[]})"
proof -
  have sp: "\<not> is_space CHR ''(''" "\<not> is_space CHR '')''" "\<not> is_space CHR ''+''"
    by (simp_all add: is_space_def)
  have g1: "strip g = g"
    using strip_keep [OF sp(1,2), of "CHR ''+'' # c # body"] assms(1) by simp
  have "startswith g ''(''"
    using assms(1) by (simp add: startswith_def)
  moreover have "endswith g '')''"
    using endswith_snoc [of "CHR ''('' # CHR ''+'' # c # body" "CHR '')''"] assms(1) by simp
  moreover have "butlast (tl g) = CHR ''+'' # c # body"
    using assms(1) by (simp add: butlast_append)
  ultimately have uw: "unwrap g = CHR ''+'' # rev (dropWhile is_space (rev (c # body)))"
    using strip_head [OF sp(3), of "c # body"] by (simp add: unwrap_def)
  let ?rest = "rev (dropWhile is_space (rev (c # body)))"
  let ?subs = "levels (strip ?rest) 5"
  have "set ?rest \<subseteq> set g"
    using set_dropWhileD [of _ is_space "rev (c # body)"] assms(1) by auto
  then have "\<forall>val\<in>set ?subs. findall rnumber val = []"
    using no_literal_subset [OF assms(2)] set_strip [of ?rest] levels_subset [of _ "strip ?rest" 5]
    by blast
  then have "\<forall>val\<in>set ?subs. scaling_value val = Inl AssertionError
      \<or> (\<exists>v. scaling_value val = Inr v \<and> v = (Str ''Siphoning Strike stacks'', []))"
    using scaling_value_no_literal by blast
  from sequence_cases [OF this]
  have "sequence (map scaling_value ?subs) = Inl AssertionError
     \<or> (\<exists>vs. sequence (map scaling_value ?subs) = Inr vs \<and> length vs = length ?subs
            \<and> (\<forall>v\<in>set vs. v = (Str ''Siphoning Strike stacks'', [])))" .
  then show ?thesis
  proof
    assume "sequence (map scaling_value ?subs) = Inl AssertionError"
    then show ?thesis
      using g1 uw by (simp add: parse_scaling_def)
  next
    assume "\<exists>vs. sequence (map scaling_value ?subs) = Inr vs \<and> length vs = length ?subs
            \<and> (\<forall>v\<in>set vs. v = (Str ''Siphoning Strike stacks'', []))"
    then obtain vs where vs: "sequence (map scaling_value ?subs) = Inr vs"
      "\<forall>v\<in>set vs. v = (Str ''Siphoning Strike stacks'', [])"
      by blast
    have "parse_scaling (strip g) 5
            = Inr \<lparr>sign = ''+'', mvalues = map fst vs, munits = map snd vs\<rparr>"
      using g1 uw vs(1) by (simp add: parse_scaling_def)
    moreover have "set (map fst vs) \<subseteq> {Str ''Siphoning Strike stacks''}"
      "set (map snd vs) \<subseteq> {[]}"
      using vs(2) by auto
    ultimately show ?thesis by simp
  qed
qed

text \<open>
  Claim C1, as the code has it. For a span without a numeric literal, parsing either
  raises the assertion error or returns an attribute with one modifier for each
  scaling fragment, each of them built from the literal exception
  \<^verbatim>\<open>Siphoning Strike stacks\<close>. When the span has no scaling fragment, parsing raises
  the assertion error if a colon and a space are followed by text, and otherwise it
  returns an attribute whose list of modifiers is empty.
\<close>

theorem span_without_literal:
  assumes "findall rnumber split0 = []"
  shows "(from_string name split0 = Inl AssertionError
          \<or> (\<exists>ms. from_string name split0 = Inr \<lparr>attribute = name, modifiers = ms\<rparr>
                \<and> length ms = length (findall rscaling split0)
                \<and> (\<forall>m\<in>set ms. sign m = ''+''
                      \<and> set (mvalues m) \<subseteq> {Str ''Siphoning Strike stacks''}
                      \<and> set (munits m) \<subseteq> {[]})))
       \<and> (findall rscaling split0 = [] \<and> findall rflat split0 = [] \<longrightarrow>
            from_string name split0 = Inr \<lparr>attribute = name, modifiers = []\<rparr>)
       \<and> (findall rscaling split0 = [] \<and> findall rflat split0 \<noteq> [] \<longrightarrow>
            from_string name split0 = Inl AssertionError)"
proof -
  let ?scalings = "findall rscaling split0"
  let ?split = "remove_scalings split0 ?scalings"
  let ?P = "\<lambda>m. sign m = ''+'' \<and> set (mvalues m) \<subseteq> {Str ''Siphoning Strike stacks''}
                 \<and> set (munits m) \<subseteq> {[]}"
  have nl: "findall rnumber ?split = []"
    using no_literal_subset [OF assms set_remove_scalings] .
  note ff = flat_fragments_no_literal [OF nl]
  have flats: "sequence (map (\<lambda>f. parse_flat f 5) (flat_fragments ?split))
                 = (if findall rflat ?split = [] then Inr [] else Inl AssertionError)"
  proof (cases "findall rflat ?split = []")
    case True
    with ff show ?thesis by simp
  next
    case False
    with ff have "flat_fragments ?split \<noteq> []"
      "\<forall>f\<in>set (flat_fragments ?split). parse_flat f 5 = Inl AssertionError"
      using parse_flat_no_literal by blast+
    from sequence_all_fail [OF this] False show ?thesis by simp
  qed
  have "\<forall>g\<in>set ?scalings. parse_scaling (strip g) 5 = Inl AssertionError
          \<or> (\<exists>m. parse_scaling (strip g) 5 = Inr m \<and> ?P m)"
  proof
    fix g
    assume g: "g \<in> set ?scalings"
    then obtain c body where
      sh: "g = CHR ''('' # CHR ''+'' # c # body @ '')''" "set body \<subseteq> set split0" "c \<in> set split0"
      using findall_rscaling_shape by blast
    have "\<not> is_digit CHR ''(''" "\<not> is_digit CHR ''+''" "\<not> is_digit CHR '')''"
      by (simp_all add: is_digit_def)
    with sh assms have "findall rnumber g = []"
      unfolding findall_rnumber_Nil_iff by auto
    from parse_scaling_no_literal [OF sh(1) this]
    show "parse_scaling (strip g) 5 = Inl AssertionError
          \<or> (\<exists>m. parse_scaling (strip g) 5 = Inr m \<and> ?P m)" .
  qed
  from sequence_cases [OF this]
  have sc: "sequence (map (\<lambda>s. parse_scaling (strip s) 5) ?scalings) = Inl AssertionError
     \<or> (\<exists>rs. sequence (map (\<lambda>s. parse_scaling (strip s) 5) ?scalings) = Inr rs
            \<and> length rs = length ?scalings \<and> (\<forall>m\<in>set rs. ?P m))" .
  have general: "from_string name split0 = Inl AssertionError
          \<or> (\<exists>ms. from_string name split0 = Inr \<lparr>attribute = name, modifiers = ms\<rparr>
                \<and> length ms = length ?scalings \<and> (\<forall>m\<in>set ms. ?P m))"
    using sc
  proof
    assume "sequence (map (\<lambda>s. parse_scaling (strip s) 5) ?scalings) = Inl AssertionError"
    then show ?thesis by (simp add: from_string_def)
  next
    assume "\<exists>rs. sequence (map (\<lambda>s. parse_scaling (strip s) 5) ?scalings) = Inr rs
            \<and> length rs = length ?scalings \<and> (\<forall>m\<in>set rs. ?P m)"
    then obtain rs where rs: "sequence (map (\<lambda>s. parse_scaling (strip s) 5) ?scalings) = Inr rs"
      "length rs = length ?scalings" "\<forall>m\<in>set rs. ?P m"
      by blast
    show ?thesis
    proof (cases "findall rflat ?split = []")
      case True
      with flats rs(1) have "from_string name split0 = Inr \<lparr>attribute = name, modifiers = rs\<rparr>"
        by (simp add: from_string_def)
      with rs(2,3) show ?thesis by blast
    next
      case False
      with flats rs(1) show ?thesis by (simp add: from_string_def)
    qed
  qed
  have none: "from_string name split0
                = (if findall rflat split0 = [] then Inr \<lparr>attribute = name, modifiers = []\<rparr>
                   else Inl AssertionError)"
    if "?scalings = []"
    using that flats by (simp add: from_string_def remove_scalings_def)
  from general none show ?thesis by simp
qed

theorem span_without_literal_witness:
  "findall rnumber ''Bonus: (+Siphoning Strike stacks)'' = []
   \<and> from_string ''Bonus'' ''Bonus: (+Siphoning Strike stacks)''
       = Inr \<lparr>attribute = ''Bonus'',
              modifiers = [\<lparr>sign = ''+'',
                            mvalues = replicate 5 (Str ''Siphoning Strike stacks''),
                            munits = replicate 5 []\<rparr>]\<rparr>
   \<and> findall rnumber ''Range: global'' = [] \<and> findall rscaling ''Range: global'' = []
   \<and> findall rflat ''Range: global'' \<noteq> []
   \<and> from_string ''Range'' ''Range: global'' = Inl AssertionError
   \<and> findall rnumber ''Range:'' = [] \<and> findall rscaling ''Range:'' = []
   \<and> findall rflat ''Range:'' = []
   \<and> from_string ''Range'' ''Range:'' = Inr \<lparr>attribute = ''Range'', modifiers = []\<rparr>"
proof -
  have a: "findall rnumber ''Bonus: (+Siphoning Strike stacks)'' = []"
    by code_simp
  have a': "from_string ''Bonus'' ''Bonus: (+Siphoning Strike stacks)''
       = Inr \<lparr>attribute = ''Bonus'',
              modifiers = [\<lparr>sign = ''+'',
                            mvalues = replicate 5 (Str ''Siphoning Strike stacks''),
                            munits = replicate 5 []\<rparr>]\<rparr>"
    by code_simp
  have b: "findall rnumber ''Range: global'' = []"
    by code_simp
  have b': "findall rscaling ''Range: global'' = []" "findall rflat ''Range: global'' \<noteq> []"
    by code_simp+
  have c: "findall rnumber ''Range:'' = []"
    by code_simp
  have c': "findall rscaling ''Range:'' = []" "findall rflat ''Range:'' = []"
    by code_simp+
  from span_without_literal [OF b, of "''Range''"] b'
  have "from_string ''Range'' ''Range: global'' = Inl AssertionError"
    by blast
  moreover from span_without_literal [OF c, of "''Range''"] c'
  have "from_string ''Range'' ''Range:'' = Inr \<lparr>attribute = ''Range'', modifiers = []\<rparr>"
    by blast
  ultimately show ?thesis
    using a a' b b' c c' by blast
qed

text \<open>
  The claim C1 itself fails: the span below has no numeric literal and no
  interpolation marker, and parsing returns an attribute without a modifier instead
  of raising.
\<close>

theorem span_without_literal_counterexample:
  "findall rnumber ''Range:'' = []
   \<and> \<not> contains ''(based on level)'' ''Range:''
   \<and> \<not> contains ''(based on casts)'' ''Range:''
   \<and> from_string ''Range'' ''Range:'' = Inr \<lparr>attribute = ''Range'', modifiers = []\<rparr>
   \<and> match_and_split ''Range: Passive: 5'' rattribute
       = Inr ([''Range'', ''Passive''], [''Range:'', ''Passive: 5''])"
  by code_simp

section \<open>Scaling fragments with a minus sign\<close>

text \<open>
  Claim C7 at a fragment with the sign \<open>-\<close>. The builder of the scaling path reads
  the sign from the fragment and would build a modifier with the sign \<open>-\<close>, but the
  pattern \<^verbatim>\<open>rscaling\<close> matches an opening parenthesis followed by \<open>+\<close> only: the
  fragment is not extracted, it stays in the span, and no modifier with the sign
  \<open>-\<close> is built.
\<close>

theorem minus_scaling_not_extracted:
  "parse_scaling ''(- 5% AP)'' 5
     = Inr \<lparr>sign = ''-'', mvalues = replicate 5 (Num (PyInt 5)), munits = replicate 5 ''% AP''\<rparr>
   \<and> findall rscaling ''Damage: 10 (- 5% AP)'' = []
   \<and> remove_scalings ''Damage: 10 (- 5% AP)'' (findall rscaling ''Damage: 10 (- 5% AP)'')
       = ''Damage: 10 (- 5% AP)''
   \<and> from_string ''Damage'' ''Damage: 10 (- 5% AP)'' = Inl AssertionError
   \<and> from_string ''Damage'' ''Damage: 10 (+ 5% AP)''
       = Inr \<lparr>attribute = ''Damage'',
              modifiers =
                [\<lparr>sign = ''+'', mvalues = replicate 5 (Num (PyInt 5)),
                   munits = replicate 5 ''% AP''\<rparr>,
                 \<lparr>sign = ''+'', mvalues = replicate 5 (Num (PyInt 10)),
                   munits = replicate 5 []\<rparr>]\<rparr>
   \<and> from_string ''Damage'' ''(- 5% AP)'' = Inr \<lparr>attribute = ''Damage'', modifiers = []\<rparr>"
  by code_simp

section \<open>The spans of the segmenter\<close>

lemma rattribute_Some:
  assumes "rattribute t = Some (g, n)"
  shows "n = length g \<and> 0 < n \<and> g = butlast g @ '':'' \<and> t = g @ drop n t"
proof -
  let ?P = "\<lambda>x. is_label_char x \<or> is_label_sep x"
  from assms have g: "g = takeWhile ?P t @ '':''" "n = length g"
    and st: "startswith (dropWhile ?P t) '':''"
    by (auto simp: rattribute_def Let_def split: if_splits)
  from st obtain rest where rest: "dropWhile ?P t = CHR '':'' # rest"
    by (cases "dropWhile ?P t") (auto simp: startswith_def)
  have "t = takeWhile ?P t @ dropWhile ?P t"
    by simp
  with rest have t: "t = takeWhile ?P t @ CHR '':'' # rest"
    by simp
  have "drop n t = rest"
    using g arg_cong [OF t, of "drop (length (takeWhile ?P t) + 1)"] by simp
  with g t show ?thesis by simp
qed

lemma scan_rattribute:
  "scan rattribute acc s = (segs, tail) \<Longrightarrow>
     rev acc @ s = concat (map (\<lambda>(b, h). b @ h) segs) @ tail
     \<and> findall rattribute s = map snd segs
     \<and> (\<forall>(b, h)\<in>set segs. h = butlast h @ '':'')"
proof (induction rattribute acc s arbitrary: segs tail rule: scan.induct)
  case (1 acc)
  then show ?case by auto
next
  case (2 acc c cs)
  show ?case
  proof (cases "rattribute (c # cs)")
    case None
    with "2.prems" have "scan rattribute (c # acc) cs = (segs, tail)"
      by simp
    from "2.hyps"(1) [OF None this] None show ?thesis
      by simp
  next
    case (Some p)
    obtain g n where p: "p = (g, n)" by (cases p)
    obtain segs' tail' where sc: "scan rattribute [] (drop (n - 1) cs) = (segs', tail')"
      by (cases "scan rattribute [] (drop (n - 1) cs)")
    with "2.prems" Some p have st: "segs = (rev acc, g) # segs'" "tail = tail'"
      by simp_all
    from rattribute_Some [of "c # cs" g n] Some p
    have n: "0 < n" and gg: "g = butlast g @ '':''" and t: "c # cs = g @ drop n (c # cs)"
      by blast+
    from n have d: "drop n (c # cs) = drop (n - 1) cs"
      by (cases n) simp_all
    note all = "2.hyps"(2) [OF Some p [symmetric] sc]
    have ih: "drop (n - 1) cs = concat (map (\<lambda>(b, h). b @ h) segs') @ tail'"
      "findall rattribute (drop (n - 1) cs) = map snd segs'"
      "\<forall>(b, h)\<in>set segs'. h = butlast h @ '':''"
      using all [THEN conjunct1] all [THEN conjunct2, THEN conjunct1]
        all [THEN conjunct2, THEN conjunct2]
      by simp_all
    have "rev acc @ c # cs = rev acc @ g @ drop (n - 1) cs"
      using t d by simp
    with ih(1) st have "rev acc @ c # cs = concat (map (\<lambda>(b, h). b @ h) segs) @ tail"
      by simp
    moreover have "findall rattribute (c # cs) = map snd segs"
      using Some p ih(2) st by simp
    moreover have "\<forall>(b, h)\<in>set segs. h = butlast h @ '':''"
      using gg ih(3) st by simp
    ultimately show ?thesis by blast
  qed
qed

lemma join_not_Nil: "join cur rest tail \<noteq> []"
  by (induction cur rest tail rule: join.induct) simp_all

lemma length_join: "length (join cur rest tail) = Suc (length rest)"
  by (induction cur rest tail rule: join.induct) simp_all

lemma concat_join: "concat (join cur rest tail) = cur @ concat (map (\<lambda>(b, h). b @ h) rest) @ tail"
  by (induction cur rest tail rule: join.induct) simp_all

lemma join_first: "startswith (join cur rest tail ! 0) cur"
  by (cases "(cur, rest, tail)" rule: join.cases) (simp_all add: startswith_def)

lemma join_later: "i < length rest \<Longrightarrow> startswith (join cur rest tail ! Suc i) (snd (rest ! i))"
proof (induction cur rest tail arbitrary: i rule: join.induct)
  case (1 cur tail)
  then show ?case by simp
next
  case (2 cur a g rest tail)
  show ?case
  proof (cases i)
    case 0
    then show ?thesis
      using join_first [of g rest tail] by simp
  next
    case (Suc j)
    with "2.prems" "2.IH" [of j] show ?thesis by simp
  qed
qed

lemma split_loop_no_slip:
  "no_slip cur prev rest tail \<Longrightarrow> length prev \<le> length cur \<Longrightarrow>
     split_loop (cur @ concat (map (\<lambda>(b, h). b @ h) rest) @ tail) prev (map (butlast \<circ> snd) rest)
       = Inr (map strip (butlast (join cur rest tail)) @ [last (join cur rest tail)])"
proof (induction cur rest tail arbitrary: prev rule: join.induct)
  case (1 cur tail)
  then show ?case by simp
next
  case (2 cur a g rest tail)
  let ?after = "g @ concat (map (\<lambda>(b, h). b @ h) rest) @ tail"
  let ?string = "cur @ a @ ?after"
  from "2.prems"(1) have
    ix: "index (drop (length prev) ?string) (butlast g) = Some (length cur + length a - length prev)"
    and ns: "no_slip g (butlast g) rest tail"
    by simp_all
  have cut: "length prev + (length cur + length a - length prev) = length (cur @ a)"
    using "2.prems"(2) by simp
  have tk: "take (length (cur @ a)) ?string = cur @ a"
    by simp
  have dr: "drop (length (cur @ a)) ?string = ?after"
    by simp
  have "split_loop ?after (butlast g) (map (butlast \<circ> snd) rest)
          = Inr (map strip (butlast (join g rest tail)) @ [last (join g rest tail)])"
    by (rule "2.IH" [OF ns]) simp
  then have "split_loop ?string prev (map (butlast \<circ> snd) ((a, g) # rest))
          = Inr (strip (cur @ a)
                 # map strip (butlast (join g rest tail)) @ [last (join g rest tail)])"
    using ix by (simp only: list.map comp_apply snd_conv split_loop.simps option.case cut tk dr
        sum.case)
  moreover have "cur @ concat (map (\<lambda>(b, h). b @ h) ((a, g) # rest)) @ tail = ?string"
    by simp
  moreover have "map strip (butlast (join cur ((a, g) # rest) tail))
                   @ [last (join cur ((a, g) # rest) tail)]
                 = strip (cur @ a)
                   # map strip (butlast (join g rest tail)) @ [last (join g rest tail)]"
    by (simp add: join_not_Nil)
  ultimately show ?case
    by (simp only:)
qed

text \<open>
  Claim C5, as the code has it. Let a string, not one of the two unparsable ones,
  hold at least one label: \<open>(a, g)\<close> and \<open>rest\<close> are the matches of the label
  pattern, each with the text that lies before it, and \<open>tail\<close> is the text behind the
  last match. Let the search of the segmenter for each later label find that label
  itself and not an earlier occurrence of its text. Then the segmenter returns the
  labels in the order of the text, each match without its colon, and one span for
  each: the spans are the texts of \<open>label_spans\<close>, all but the last stripped (the
  list of spans of the one known malformed text is replaced by the corrected list).
  The texts of \<open>label_spans\<close> follow each other and make up the string; the first
  starts at the start of the string and holds the first label with its colon, every
  later one starts with its label and colon, so that a text runs from the start of
  its label up to the start of the next label, and the last to the end of the string.
\<close>

theorem spans_start_at_labels:
  assumes "string \<notin> set unparsable"
    and "scan rattribute [] string = ((a, g) # rest, tail)"
    and "no_slip (a @ g) (butlast g) rest tail"
  shows "match_and_split string rattribute
           = Inr (map (butlast \<circ> snd) ((a, g) # rest),
                  let splits = map strip (butlast (label_spans string))
                                 @ [last (label_spans string)]
                  in if splits = heimer_splits then heimer_fixed else splits)
       \<and> findall rattribute string = map snd ((a, g) # rest)
       \<and> (\<forall>(b, h)\<in>set ((a, g) # rest). h = butlast h @ '':'')
       \<and> string = a @ g @ concat (map (\<lambda>(b, h). b @ h) rest) @ tail
       \<and> label_spans string = join (a @ g) rest tail
       \<and> length (label_spans string) = Suc (length rest)
       \<and> concat (label_spans string) = string
       \<and> startswith (label_spans string ! 0) (a @ g)
       \<and> (\<forall>i<length rest. startswith (label_spans string ! Suc i) (snd (rest ! i)))"
proof -
  note all = scan_rattribute [OF assms(2)]
  have str: "string = a @ g @ concat (map (\<lambda>(b, h). b @ h) rest) @ tail"
    using all [THEN conjunct1] by simp
  have fa: "findall rattribute string = map snd ((a, g) # rest)"
    using all [THEN conjunct2, THEN conjunct1] .
  have colon: "\<forall>(b, h)\<in>set ((a, g) # rest). h = butlast h @ '':''"
    using all [THEN conjunct2, THEN conjunct2] .
  have ls: "label_spans string = join (a @ g) rest tail"
    using assms(2) by (simp add: label_spans_def)
  have "length (butlast g) \<le> length (a @ g)"
    by simp
  from split_loop_no_slip [OF assms(3) this]
  have "split_loop (a @ g @ concat (map (\<lambda>(b, h). b @ h) rest) @ tail) (butlast g)
          (map (butlast \<circ> snd) rest)
          = Inr (map strip (butlast (join (a @ g) rest tail)) @ [last (join (a @ g) rest tail)])"
    by (simp only: append_assoc)
  then have sl: "split_loop string (butlast g) (map (butlast \<circ> snd) rest)
          = Inr (map strip (butlast (label_spans string)) @ [last (label_spans string)])"
    by (simp only: ls str [symmetric])
  have "map butlast (findall rattribute string) = butlast g # map (butlast \<circ> snd) rest"
    using fa by simp
  with sl assms(1) have "match_and_split string rattribute
           = Inr (map (butlast \<circ> snd) ((a, g) # rest),
                  let splits = map strip (butlast (label_spans string))
                                 @ [last (label_spans string)]
                  in if splits = heimer_splits then heimer_fixed else splits)"
    by (simp add: match_and_split_def Let_def)
  moreover have "length (label_spans string) = Suc (length rest)"
    by (simp add: ls length_join)
  moreover have "concat (label_spans string) = string"
  proof -
    have "concat (join (a @ g) rest tail) = a @ g @ concat (map (\<lambda>(b, h). b @ h) rest) @ tail"
      by (simp add: concat_join)
    then show ?thesis
      by (simp only: ls str [symmetric])
  qed
  moreover have "startswith (label_spans string ! 0) (a @ g)"
    by (simp only: ls join_first)
  moreover have "\<forall>i<length rest. startswith (label_spans string ! Suc i) (snd (rest ! i))"
    unfolding ls using join_later by blast
  ultimately show ?thesis
    using fa colon str ls by blast
qed

theorem spans_start_at_labels_witness:
  "''Magic Damage: 80 / 130 / 180 (+ 60% AP) Slow: 20%'' \<notin> set unparsable
   \<and> scan rattribute [] ''Magic Damage: 80 / 130 / 180 (+ 60% AP) Slow: 20%''
       = (([], ''Magic Damage:'') # [('' 80 / 130 / 180 (+ 60% AP) '', ''Slow:'')], '' 20%'')
   \<and> no_slip ([] @ ''Magic Damage:'') (butlast ''Magic Damage:'')
        [('' 80 / 130 / 180 (+ 60% AP) '', ''Slow:'')] '' 20%''
   \<and> label_spans ''Magic Damage: 80 / 130 / 180 (+ 60% AP) Slow: 20%''
       = [''Magic Damage: 80 / 130 / 180 (+ 60% AP) '', ''Slow: 20%'']
   \<and> match_and_split ''Magic Damage: 80 / 130 / 180 (+ 60% AP) Slow: 20%'' rattribute
       = Inr ([''Magic Damage'', ''Slow''],
              [''Magic Damage: 80 / 130 / 180 (+ 60% AP)'', ''Slow: 20%''])"
proof -
  let ?s = "''Magic Damage: 80 / 130 / 180 (+ 60% AP) Slow: 20%''"
  let ?rest = "[('' 80 / 130 / 180 (+ 60% AP) '', ''Slow:'')]"
  have a: "?s \<notin> set unparsable"
    by code_simp
  have b: "scan rattribute [] ?s = (([], ''Magic Damage:'') # ?rest, '' 20%'')"
    by code_simp
  have c: "no_slip ([] @ ''Magic Damage:'') (butlast ''Magic Damage:'') ?rest '' 20%''"
    by code_simp
  have j: "join ([] @ ''Magic Damage:'') ?rest '' 20%''
             = [''Magic Damage: 80 / 130 / 180 (+ 60% AP) '', ''Slow: 20%'']"
    by code_simp
  have st: "(let splits = map strip (butlast [''Magic Damage: 80 / 130 / 180 (+ 60% AP) '',
                                              ''Slow: 20%''])
                            @ [last [''Magic Damage: 80 / 130 / 180 (+ 60% AP) '', ''Slow: 20%'']]
             in if splits = heimer_splits then heimer_fixed else splits)
            = [''Magic Damage: 80 / 130 / 180 (+ 60% AP)'', ''Slow: 20%'']"
    by code_simp
  note t = spans_start_at_labels [OF a b c]
  have ls: "label_spans ?s = [''Magic Damage: 80 / 130 / 180 (+ 60% AP) '', ''Slow: 20%'']"
    using t [THEN conjunct2, THEN conjunct2, THEN conjunct2, THEN conjunct2, THEN conjunct1]
    by (simp only: j)
  have "match_and_split ?s rattribute
       = Inr ([''Magic Damage'', ''Slow''],
              [''Magic Damage: 80 / 130 / 180 (+ 60% AP)'', ''Slow: 20%''])"
    using t [THEN conjunct1] by (simp only: ls st) simp
  with a b c ls show ?thesis
    by (intro conjI)
qed

text \<open>
  The claim C5 itself fails: the span of a label does not start behind the colon of
  the label. It starts at the label, and the span of the first label starts at the
  start of the string.
\<close>

theorem spans_start_at_labels_counterexample:
  "match_and_split ''Damage: 10% Slow: 20%'' rattribute
     = Inr ([''Damage'', ''Slow''], [''Damage: 10%'', ''Slow: 20%''])
   \<and> [''Damage: 10%'', ''Slow: 20%''] \<noteq> ['' 10% '', '' 20%'']
   \<and> [''Damage: 10%'', ''Slow: 20%''] \<noteq> [''10%'', ''20%'']
   \<and> match_and_split ''(AoE) Damage: 10%'' rattribute
       = Inr ([''Damage''], [''(AoE) Damage: 10%''])"
  by code_simp

end
